theory Spec2Isabelle
  imports Main "HOL-Library.Word"
begin

section \<open>Strings and numbers of the host language\<close>

text \<open>
  A string of the program is a list of code units. The model keeps to the code units
  below 256 (HOL's \<open>char\<close>), on which the functions below agree with the language's
  own: \<open>length\<close> counts code units, \<open>startsWith\<close> is the prefix test.
  The pictographs that open several message literals of the source are left out of the
  literals here.
\<close>

definition inRange :: "char \<Rightarrow> char \<Rightarrow> char \<Rightarrow> bool" where
  "inRange lo hi c = ((of_char lo :: nat) \<le> of_char c \<and> (of_char c :: nat) \<le> of_char hi)"

definition toLowerCaseUnit :: "char \<Rightarrow> char" where
  \<comment> \<open>A-Z and the capital letters of the range 0xC0-0xDE (0xD7 is the multiplication sign)
      move up by 32; every other code unit below 256 is its own lower case.\<close>
  "toLowerCaseUnit c =
     (let n = (of_char c :: nat)
      in if (65 \<le> n \<and> n \<le> 90) \<or> (192 \<le> n \<and> n \<le> 222 \<and> n \<noteq> 215)
         then char_of (n + 32) else c)"

definition toLowerCase :: "string \<Rightarrow> string" where
  "toLowerCase s = map toLowerCaseUnit s"

definition toUpperCaseUnit :: "char \<Rightarrow> char" where
  \<comment> \<open>Exact on ASCII; the program upper-cases hexadecimal digests only.\<close>
  "toUpperCaseUnit c =
     (let n = (of_char c :: nat) in if 97 \<le> n \<and> n \<le> 122 then char_of (n - 32) else c)"

definition toUpperCase :: "string \<Rightarrow> string" where
  "toUpperCase s = map toUpperCaseUnit s"

definition startsWith :: "string \<Rightarrow> string \<Rightarrow> bool" where
  "startsWith s p = (take (length p) s = p)"

fun split_on :: "char \<Rightarrow> string \<Rightarrow> string list" where
  "split_on d [] = [[]]"
| "split_on d (c # cs) =
     (if c = d then [] # split_on d cs
      else (case split_on d cs of [] \<Rightarrow> [[c]] | h # t \<Rightarrow> (c # h) # t))"

fun join :: "string \<Rightarrow> string list \<Rightarrow> string" where
  "join sep [] = []"
| "join sep [x] = x"
| "join sep (x # y # ys) = x @ sep @ join sep (y # ys)"

text \<open>
  A number of the host is a double. The program only makes integer-valued ones, so a
  number here is NaN, an infinity, or \<open>Finite i\<close> for the double whose value is the
  integer \<open>i\<close> (the two zeros are one value: both print as 0). \<open>roundToDouble\<close> takes
  a natural number to the nearest double, ties to the even significand; a rounded value
  of more than 1024 bits (from \<open>2 ^ 1024\<close> on) is an infinity.
\<close>

datatype number = NaN | Finite int | Infinity | NegInfinity

fun bitLength :: "nat \<Rightarrow> nat" where
  "bitLength n = (if n = 0 then 0 else Suc (bitLength (n div 2)))"

declare bitLength.simps [simp del]

definition roundToDouble :: "nat \<Rightarrow> nat" where
  "roundToDouble n =
     (let b = bitLength n
      in if b \<le> 53 then n
         else (let e = b - 53;
                   q = n div 2 ^ e;
                   r = n mod 2 ^ e;
                   half = 2 ^ (e - 1);
                   q = (if r > half \<or> (r = half \<and> odd q) then q + 1 else q)
               in q * 2 ^ e))"

definition toNumber :: "bool \<Rightarrow> nat \<Rightarrow> number" where
  \<comment> \<open>The number for a sign and a magnitude.\<close>
  "toNumber negative m =
     (let v = roundToDouble m
      in if bitLength v > 1024 then (if negative then NegInfinity else Infinity)
         else Finite (if negative then - int v else int v))"

definition digitChar :: "nat \<Rightarrow> char" where
  "digitChar d = (if d < 10 then char_of (48 + d) else char_of (87 + d))"

fun natToString :: "nat \<Rightarrow> nat \<Rightarrow> string" where
  "natToString radix n =
     (if radix < 2 \<or> n < radix then [digitChar n]
      else natToString radix (n div radix) @ [digitChar (n mod radix)])"

declare natToString.simps [simp del]

text \<open>
  Printing a number: the digits are the shortest decimal \<open>s\<close> of \<open>k\<close> digits with
  \<open>s * 10 ^ (n - k)\<close> rounding to the number (the closest such \<open>s\<close>, the even one on a
  tie); up to 21 integer digits they are followed by zeros, beyond that the exponent form
  is used.
\<close>

definition candidate :: "nat \<Rightarrow> nat \<Rightarrow> nat \<Rightarrow> nat option" where
  "candidate x n k =
     (let p = 10 ^ (n - k);
          lo = x div p;
          hi = lo + 1;
          okLo = (roundToDouble (lo * p) = x);
          okHi = (hi < 10 ^ k \<and> roundToDouble (hi * p) = x)
      in if okLo \<and> okHi
         then (if x - lo * p < hi * p - x \<or> (x - lo * p = hi * p - x \<and> even lo)
               then Some lo else Some hi)
         else if okLo then Some lo
         else if okHi then Some hi
         else None)"

fun firstCandidate :: "nat \<Rightarrow> nat \<Rightarrow> nat list \<Rightarrow> nat \<times> nat \<times> nat" where
  "firstCandidate x n [] = (n, n, x)"
| "firstCandidate x n (k # ks) =
     (case candidate x n k of Some s \<Rightarrow> (n, k, s) | None \<Rightarrow> firstCandidate x n ks)"

definition shortestDigits :: "nat \<Rightarrow> nat \<times> nat \<times> nat" where
  \<comment> \<open>\<open>(n, k, s)\<close> for a positive integer-valued double\<close>
  "shortestDigits x =
     (let n = length (natToString 10 x)
      in if roundToDouble (10 ^ n) = x then (n + 1, 1, 1)
         else firstCandidate x n [1 ..< Suc n])"

definition positiveToString :: "nat \<Rightarrow> string" where
  "positiveToString x =
     (case shortestDigits x of (n, k, s) \<Rightarrow>
        (let ds = natToString 10 s
         in if n \<le> 21 then ds @ replicate (n - k) (CHR ''0'')
            else if k = 1 then ds @ ''e+'' @ natToString 10 (n - 1)
            else take 1 ds @ ''.'' @ drop 1 ds @ ''e+'' @ natToString 10 (n - 1)))"

definition numberToString :: "number \<Rightarrow> string" where
  "numberToString x =
     (case x of
        NaN \<Rightarrow> ''NaN''
      | Infinity \<Rightarrow> ''Infinity''
      | NegInfinity \<Rightarrow> ''-Infinity''
      | Finite i \<Rightarrow>
          if i = 0 then ''0''
          else if i < 0 then CHR ''-'' # positiveToString (nat (- i))
          else positiveToString (nat i))"

definition isWhiteSpace :: "char \<Rightarrow> bool" where
  "isWhiteSpace c = ((of_char c :: nat) \<in> {9, 10, 11, 12, 13, 32, 160})"

definition digitValue :: "char \<Rightarrow> nat option" where
  "digitValue c =
     (let n = (of_char c :: nat)
      in if 48 \<le> n \<and> n \<le> 57 then Some (n - 48)
         else if 97 \<le> n \<and> n \<le> 122 then Some (n - 87)
         else if 65 \<le> n \<and> n \<le> 90 then Some (n - 55)
         else None)"

definition isDigitOf :: "nat \<Rightarrow> char \<Rightarrow> bool" where
  "isDigitOf radix c = (case digitValue c of None \<Rightarrow> False | Some d \<Rightarrow> d < radix)"

definition digitsValue :: "nat \<Rightarrow> string \<Rightarrow> nat" where
  "digitsValue radix ds = foldl (\<lambda>acc c. acc * radix + (case digitValue c of None \<Rightarrow> 0 | Some d \<Rightarrow> d)) 0 ds"

definition parseInt :: "string \<Rightarrow> number" where
  \<comment> \<open>\<open>parseInt(s)\<close> with no radix argument: leading white space, a sign, a \<open>0x\<close>
      prefix, then the longest run of digits; NaN when that run is empty, otherwise the
      double nearest to the value of the run. (Beyond 20 significant decimal digits the
      language lets an implementation read the later digits as zeros; the value of the
      run is read exactly here.)\<close>
  "parseInt inputString =
     (let s = dropWhile isWhiteSpace inputString;
          negative = (s \<noteq> [] \<and> hd s = CHR ''-'');
          s = (if s \<noteq> [] \<and> (hd s = CHR ''+'' \<or> hd s = CHR ''-'') then tl s else s);
          hex = (startsWith s ''0x'' \<or> startsWith s ''0X'');
          radix = (if hex then 16 else 10);
          s = (if hex then drop 2 s else s);
          z = takeWhile (isDigitOf radix) s
      in if z = [] then NaN
         else toNumber negative (digitsValue radix z))"

datatype js_error = Thrown string

section \<open>Regular expressions\<close>

text \<open>
  The fragment of the regular-expression language that the program's literals use, with a
  backtracking matcher: \<open>rems ic r s\<close> lists what is left of \<open>s\<close> after each way of
  matching \<open>r\<close> at its start, in the order backtracking tries them (alternatives left to
  right, repetition greedy). \<open>ic\<close> is the \<open>i\<close> flag.
\<close>

datatype regex =
    Lit string
  | Cls "(char \<times> char) list"
  | NCls "(char \<times> char) list"
  | Alt regex regex
  | Seq regex regex
  | Plus regex
  | Opt regex

definition canonicalize :: "char \<Rightarrow> nat" where
  \<comment> \<open>The case folding of the \<open>i\<close> flag without the \<open>u\<close> flag: the upper-case code
      unit, unless upper-casing gives several units or takes a non-ASCII unit to ASCII.\<close>
  "canonicalize c =
     (let n = (of_char c :: nat)
      in if (97 \<le> n \<and> n \<le> 122) \<or> (224 \<le> n \<and> n \<le> 254 \<and> n \<noteq> 247) then n - 32
         else if n = 181 then 924 else if n = 255 then 376 else n)"

definition unitMatches :: "bool \<Rightarrow> char \<Rightarrow> char \<Rightarrow> bool" where
  "unitMatches ic p c = (if ic then canonicalize p = canonicalize c else p = c)"

definition inClass :: "bool \<Rightarrow> (char \<times> char) list \<Rightarrow> char \<Rightarrow> bool" where
  "inClass ic rs c =
     list_ex (\<lambda>(lo, hi).
        if ic then list_ex (\<lambda>n. canonicalize (char_of n) = canonicalize c)
                     [of_char lo ..< Suc (of_char hi)]
        else inRange lo hi c) rs"

fun rems :: "bool \<Rightarrow> regex \<Rightarrow> string \<Rightarrow> string list" where
  "rems ic (Lit []) s = [s]"
| "rems ic (Lit (p # ps)) [] = []"
| "rems ic (Lit (p # ps)) (c # s) = (if unitMatches ic p c then rems ic (Lit ps) s else [])"
| "rems ic (Cls rs) [] = []"
| "rems ic (Cls rs) (c # s) = (if inClass ic rs c then [s] else [])"
| "rems ic (NCls rs) [] = []"
| "rems ic (NCls rs) (c # s) = (if inClass ic rs c then [] else [s])"
| "rems ic (Alt a b) s = rems ic a s @ rems ic b s"
| "rems ic (Seq a b) s = concat (map (rems ic b) (rems ic a s))"
| "rems ic (Plus r) s =
     concat (map (\<lambda>t. (if length t < length s then rems ic (Plus r) t else []) @ [t])
                 (rems ic r s))"
| "rems ic (Opt r) s = rems ic r s @ [s]"

fun test :: "bool \<Rightarrow> regex \<Rightarrow> string \<Rightarrow> bool" where
  \<comment> \<open>\<open>regex.test(s)\<close> of a regex without the \<open>g\<close> flag: a match at some start index.\<close>
  "test ic r [] = (rems ic r [] \<noteq> [])"
| "test ic r (c # s) = (rems ic r (c # s) \<noteq> [] \<or> test ic r s)"

section \<open>Password strength\<close>

datatype strength = Weak | MediumStrength | Strong

record strength_result =
  score :: int
  strength :: strength
  feedback :: "string list"

definition commonPasswords :: "string list" where
  "commonPasswords = [''password'', ''123456'', ''qwerty'', ''admin'', ''welcome'', ''password123'']"

definition checkStrength :: "string \<Rightarrow> strength_result" where
  "checkStrength password =
     (let score = (0 :: int);
          feedback = ([] :: string list);
          score = (if length password \<ge> 8 then score + 1 else score);
          score = (if length password \<ge> 12 then score + 1 else score);
          feedback = (if length password < 8
                      then feedback @ [''Should be at least 8 characters''] else feedback);
          (score, feedback) =
            (if test False (Cls [(CHR ''A'', CHR ''Z'')]) password then (score + 1, feedback)
             else (score, feedback @ [''Add uppercase letters'']));
          (score, feedback) =
            (if test False (Cls [(CHR ''a'', CHR ''z'')]) password then (score + 1, feedback)
             else (score, feedback @ [''Add lowercase letters'']));
          (score, feedback) =
            (if test False (Cls [(CHR ''0'', CHR ''9'')]) password then (score + 1, feedback)
             else (score, feedback @ [''Add numbers'']));
          (score, feedback) =
            (if test False (NCls [(CHR ''A'', CHR ''Z''), (CHR ''a'', CHR ''z''), (CHR ''0'', CHR ''9'')])
                  password
             then (score + 1, feedback)
             else (score, feedback @ [''Add special characters (!@#$%)'']));
          (score, feedback) =
            (if toLowerCase password \<in> set commonPasswords
             then (0, feedback @ [''Very common password - choose something unique''])
             else (score, feedback))
      in if score \<ge> 5
         then \<lparr>score = score, strength = Strong, feedback = feedback @ [''Strong password!'']\<rparr>
         else if score \<ge> 3
         then \<lparr>score = score, strength = MediumStrength,
               feedback = feedback @ [''Medium strength - could be stronger'']\<rparr>
         else \<lparr>score = score, strength = Weak,
               feedback = feedback @ [''Weak password - consider improving'']\<rparr>)"

section \<open>Breach lookup\<close>

text \<open>
  The platform's digest and the range-lookup service are parameters: a digest is a list of
  bytes or a failure, a response carries its \<open>ok\<close> flag and a body whose reading can
  fail as well.
\<close>

record range_response =
  ok :: bool
  text_body :: "js_error + string"

record breach_env =
  digest_sha1 :: "string \<Rightarrow> js_error + 8 word list"
  fetch_range :: "string \<Rightarrow> js_error + range_response"

record breach_result =
  isBreached :: bool
  breachCount :: number
  breach_details :: string

definition padStart :: "nat \<Rightarrow> char \<Rightarrow> string \<Rightarrow> string" where
  "padStart n c s = replicate (n - length s) c @ s"

definition sha1 :: "breach_env \<Rightarrow> string \<Rightarrow> js_error + string" where
  "sha1 env str =
     (case digest_sha1 env str of
        Inl e \<Rightarrow> Inl e
      | Inr hashArray \<Rightarrow>
          Inr (toUpperCase
                 (concat (map (\<lambda>b. padStart 2 (CHR ''0'') (natToString 16 (unat b))) hashArray))))"

definition secondField :: "string \<Rightarrow> string" where
  \<comment> \<open>\<open>found.split(':')[1]\<close> as \<open>parseInt\<close> reads it: a missing element is
      \<open>undefined\<close>, which \<open>parseInt\<close> turns into the string of that name.\<close>
  "secondField line = (case split_on (CHR '':'') line of _ # x # _ \<Rightarrow> x | _ \<Rightarrow> ''undefined'')"

definition checkPasswordBreach_try :: "breach_env \<Rightarrow> string \<Rightarrow> js_error + breach_result" where
  \<comment> \<open>The body of the \<open>try\<close> block.\<close>
  "checkPasswordBreach_try env password =
     (case sha1 env password of
        Inl e \<Rightarrow> Inl e
      | Inr passwordHash \<Rightarrow>
          (let prefix = take 5 passwordHash;
               suffix = toUpperCase (drop 5 passwordHash)
           in case fetch_range env prefix of
                Inl e \<Rightarrow> Inl e
              | Inr response \<Rightarrow>
                  if \<not> ok response then Inl (Thrown ''API request failed'')
                  else (case text_body response of
                          Inl e \<Rightarrow> Inl e
                        | Inr data \<Rightarrow>
                            (let hashes = split_on (CHR 0x0A) data;
                                 found = find (\<lambda>hash. startsWith hash suffix) hashes
                             in case found of
                                  Some line \<Rightarrow>
                                    if line \<noteq> []
                                    then (let breachCount = parseInt (secondField line)
                                          in Inr \<lparr>isBreached = True, breachCount = breachCount,
                                                  breach_details =
                                                    ''Found in '' @ numberToString breachCount
                                                    @ '' data breaches!''\<rparr>)
                                    else Inr \<lparr>isBreached = False, breachCount = Finite 0,
                                             breach_details = ''No breaches found''\<rparr>
                                | None \<Rightarrow> Inr \<lparr>isBreached = False, breachCount = Finite 0,
                                                breach_details = ''No breaches found''\<rparr>))))"

definition checkPasswordBreach :: "breach_env \<Rightarrow> string \<Rightarrow> breach_result" where
  "checkPasswordBreach env password =
     (case checkPasswordBreach_try env password of
        Inr r \<Rightarrow> r
      | Inl error \<Rightarrow> \<lparr>isBreached = False, breachCount = Finite 0,
                     breach_details = ''Unable to check breaches''\<rparr>)"

section \<open>URL scanner\<close>

datatype level = Low | Medium | High

record verdict =
  safe :: bool
  threatTypes :: "string list"
  details :: string

record basic_result = verdict +
  riskLevel :: level

record scan_result = basic_result +
  googleSafe :: bool
  domainReputation :: level
  riskScore :: int
  timestamp :: nat

record suspiciousPattern =
  pattern :: regex
  ignoreCase :: bool
  threat :: string

definition alnum :: regex where
  "alnum = Cls [(CHR ''a'', CHR ''z''), (CHR ''0'', CHR ''9'')]"

definition digit :: regex where
  "digit = Cls [(CHR ''0'', CHR ''9'')]"

definition suspiciousPatterns :: "suspiciousPattern list" where
  "suspiciousPatterns =
    [\<lparr>pattern = Seq (Alt (Lit ''login'') (Alt (Lit ''signin'') (Lit ''account'')))
                 (Seq (Lit ''.'') (Seq (Plus alnum) (Seq (Lit ''.'') (Plus alnum)))),
      ignoreCase = False, threat = ''Potential phishing page''\<rparr>,
     \<lparr>pattern = Seq (Alt (Lit ''paypal'') (Alt (Lit ''bank'') (Alt (Lit ''amazon'')
                      (Alt (Lit ''google'') (Lit ''facebook'')))))
                 (Seq (Lit ''.'') (Seq (Plus alnum) (Seq (Lit ''.'') (Plus alnum)))),
      ignoreCase = False, threat = ''Brand impersonation''\<rparr>,
     \<lparr>pattern = Alt (Lit ''bit.ly'') (Alt (Lit ''tinyurl'') (Alt (Lit ''goo.gl'')
                      (Alt (Lit ''t.co'') (Lit ''ow.ly'')))),
      ignoreCase = False, threat = ''URL shortener''\<rparr>,
     \<lparr>pattern = Lit ''@'', ignoreCase = False, threat = ''Misleading @ symbol''\<rparr>,
     \<lparr>pattern = Seq (Lit ''http'') (Seq (Opt (Lit ''s'')) (Seq (Lit ''://'')
                   (Seq (Plus digit) (Seq (Lit ''.'') (Seq (Plus digit) (Seq (Lit ''.'')
                   (Seq (Plus digit) (Seq (Lit ''.'') (Plus digit))))))))),
      ignoreCase = False, threat = ''IP address instead of domain''\<rparr>,
     \<lparr>pattern = Alt (Lit ''-login-'') (Alt (Lit ''secure-'') (Alt (Lit ''verify-'')
                      (Lit ''account-''))),
      ignoreCase = True, threat = ''Suspicious keywords''\<rparr>]"

definition basicUrlAnalysis :: "string \<Rightarrow> basic_result" where
  "basicUrlAnalysis url =
     (let threats = ([] :: string list);
          threats = foldl (\<lambda>threats sp.
                       if test (ignoreCase sp) (pattern sp) (toLowerCase url)
                       then threats @ [threat sp] else threats)
                     threats suspiciousPatterns;
          threats = (if \<not> startsWith url ''https://'' then threats @ [''Not using HTTPS'']
                     else threats);
          threats = (if length url > 100 then threats @ [''Unusually long URL''] else threats)
      in \<lparr>safe = (length threats = 0),
          threatTypes = threats,
          details = (if length threats > 0 then join ''. '' threats else ''Passes basic checks''),
          riskLevel = (if length threats \<ge> 3 then High
                       else if length threats \<ge> 1 then Medium else Low)\<rparr>)"

definition normalizeUrl :: "string \<Rightarrow> string" where
  "normalizeUrl url = (if startsWith url ''http'' then url else ''http://'' @ url)"

text \<open>
  What the scanner reads from outside, as parameters. \<open>meta_env\<close> is the build
  environment object the key getters read (\<open>None\<close> when it is undefined, so that
  reading a key from it throws). A service takes the key and the identifier sent to it
  and gives the parsed payload, or a failure (transport, a body that is no JSON, a payload
  whose fields cannot be read). \<open>url_hostname\<close> is the platform's URL parser
  (\<open>None\<close> when it rejects its input), \<open>encodeURIComponent\<close> and \<open>btoa\<close> are the
  platform's encoders; \<open>clock\<close> and \<open>clock_catch\<close> are the times read at entry and in
  the handler. Where two result objects of the source have a field of the same name, the
  field of the service's own result carries a prefix here (\<open>ipqs_riskScore\<close>,
  \<open>ipqs_details\<close>, \<open>breach_details\<close>), and the fields of a payload start with \<open>d_\<close>.
\<close>

record ipqs_data =
  d_risk_score :: "int option"
  d_malicious :: bool
  d_phishing :: bool
  d_suspicious :: bool
  d_message :: "string option"

record scan_env =
  meta_env :: "(string \<Rightarrow> string option) option"
  fetch_threatMatches :: "string \<Rightarrow> string \<Rightarrow> js_error + string list option"
  fetch_ipqs :: "string \<Rightarrow> string \<Rightarrow> js_error + ipqs_data"
  fetch_virustotal :: "string \<Rightarrow> string \<Rightarrow> js_error + (string \<times> int) list option"
  url_hostname :: "string \<Rightarrow> string option"
  encodeURIComponent :: "string \<Rightarrow> string"
  btoa :: "string \<Rightarrow> string"
  clock :: nat
  clock_catch :: nat

datatype request =
    ThreatMatchesFind string string
  | IpqsUrl string string
  | VirusTotalUrl string string

definition readKey :: "scan_env \<Rightarrow> string \<Rightarrow> js_error + string" where
  \<comment> \<open>\<open>import.meta.env.NAME || ''\<close>\<close>
  "readKey env name =
     (case meta_env env of
        None \<Rightarrow> Inl (Thrown ''TypeError'')
      | Some vars \<Rightarrow> Inr (case vars name of None \<Rightarrow> [] | Some v \<Rightarrow> v))"

definition getGoogleApiKey :: "scan_env \<Rightarrow> js_error + string" where
  "getGoogleApiKey env = readKey env ''VITE_GOOGLE_SAFE_BROWSING_API_KEY''"

definition getIpqsApiKey :: "scan_env \<Rightarrow> js_error + string" where
  "getIpqsApiKey env = readKey env ''VITE_IPQUALITYSCORE_API_KEY''"

definition getVtApiKey :: "scan_env \<Rightarrow> js_error + string" where
  "getVtApiKey env = readKey env ''VITE_VIRUSTOTAL_API_KEY''"

definition extractDomain :: "scan_env \<Rightarrow> string \<Rightarrow> string" where
  "extractDomain env url =
     (case url_hostname env (normalizeUrl url) of Some hostname \<Rightarrow> hostname | None \<Rightarrow> url)"

definition checkWithGoogle ::
  "scan_env \<Rightarrow> string \<Rightarrow> string \<Rightarrow> request list \<Rightarrow> (js_error + verdict) \<times> request list" where
  "checkWithGoogle env url apiKey log =
     (let log = log @ [ThreatMatchesFind apiKey (normalizeUrl url)]
      in case fetch_threatMatches env apiKey (normalizeUrl url) of
           Inl e \<Rightarrow> (Inl e, log)
         | Inr matches \<Rightarrow>
             (case matches of
                Some threats \<Rightarrow>
                  if length threats > 0
                  then (Inr \<lparr>safe = False, threatTypes = threats,
                             details = ''Google Safe Browsing: '' @ join '', '' threats
                                       @ '' detected''\<rparr>, log)
                  else (Inr \<lparr>safe = True, threatTypes = [],
                             details = ''Google Safe Browsing: No threats found''\<rparr>, log)
              | None \<Rightarrow> (Inr \<lparr>safe = True, threatTypes = [],
                               details = ''Google Safe Browsing: No threats found''\<rparr>, log)))"

record ipqs_result =
  reputation :: level
  ipqs_riskScore :: int
  isMalicious :: bool
  isPhishing :: bool
  isSuspicious :: bool
  ipqs_details :: string

definition greaterThan :: "int option \<Rightarrow> int \<Rightarrow> bool" where
  \<comment> \<open>\<open>x > k\<close>: false when \<open>x\<close> is missing or NaN.\<close>
  "greaterThan x k = (case x of None \<Rightarrow> False | Some n \<Rightarrow> n > k)"

definition orZero :: "int option \<Rightarrow> int" where
  \<comment> \<open>\<open>x || 0\<close>\<close>
  "orZero x = (case x of None \<Rightarrow> 0 | Some n \<Rightarrow> n)"

definition checkDomainReputation ::
  "scan_env \<Rightarrow> string \<Rightarrow> string \<Rightarrow> request list \<Rightarrow> (js_error + ipqs_result) \<times> request list" where
  "checkDomainReputation env domain apiKey log =
     (let log = log @ [IpqsUrl apiKey (encodeURIComponent env domain)]
      in case fetch_ipqs env apiKey (encodeURIComponent env domain) of
           Inl e \<Rightarrow> (Inl e, log)
         | Inr data \<Rightarrow>
             (Inr \<lparr>reputation = (if greaterThan (d_risk_score data) 75 then Low
                                 else if greaterThan (d_risk_score data) 25 then Medium else High),
                   ipqs_riskScore = orZero (d_risk_score data),
                   isMalicious = d_malicious data,
                   isPhishing = d_phishing data,
                   isSuspicious = d_suspicious data,
                   ipqs_details =
                     (case d_message data of
                        Some m \<Rightarrow> if m \<noteq> [] then m
                                  else ''Risk score: '' @ numberToString (Finite (orZero (d_risk_score data)))
                                       @ ''/100''
                      | None \<Rightarrow> ''Risk score: '' @ numberToString (Finite (orZero (d_risk_score data)))
                                @ ''/100'')\<rparr>, log))"

record vt_result =
  malicious :: int
  suspicious :: int
  undetected :: int
  total :: int

definition statOrZero :: "(string \<times> int) list \<Rightarrow> string \<Rightarrow> int" where
  \<comment> \<open>\<open>stats.name || 0\<close>\<close>
  "statOrZero stats name = (case map_of stats name of None \<Rightarrow> 0 | Some n \<Rightarrow> n)"

definition checkWithVirusTotal ::
  "scan_env \<Rightarrow> string \<Rightarrow> string \<Rightarrow> request list \<Rightarrow> (js_error + vt_result) \<times> request list" where
  "checkWithVirusTotal env url apiKey log =
     (let base64Url = filter (\<lambda>c. c \<noteq> CHR ''='') (btoa env url);
          log = log @ [VirusTotalUrl apiKey base64Url]
      in case fetch_virustotal env apiKey base64Url of
           Inl e \<Rightarrow> (Inl e, log)
         | Inr last_analysis_stats \<Rightarrow>
             (let stats = (case last_analysis_stats of Some st \<Rightarrow> st | None \<Rightarrow> [])
              in (Inr \<lparr>malicious = statOrZero stats ''malicious'',
                       suspicious = statOrZero stats ''suspicious'',
                       undetected = statOrZero stats ''undetected'',
                       total = foldl (\<lambda>a b. a + b) 0 (map snd stats)\<rparr>, log)))"

text \<open>
  The pipeline of \<open>scanUrl\<close>. A stage takes the accumulated \<open>results\<close> and the requests
  sent so far and gives both back; a failure of a stage's service is caught in the stage.
\<close>

type_synonym scan_state = "scan_result \<times> request list"

definition initialResults :: "scan_env \<Rightarrow> scan_result" where
  "initialResults env =
     \<lparr>safe = True, threatTypes = [], details = [], riskLevel = Low,
      googleSafe = True, domainReputation = High, riskScore = 0, timestamp = clock env\<rparr>"

definition basicStage :: "string \<Rightarrow> scan_state \<Rightarrow> scan_state" where
  \<comment> \<open>\<open>Object.assign(results, basicCheck)\<close> copies the four fields of the basic check.\<close>
  "basicStage url st =
     (case st of (results, log) \<Rightarrow>
        (let basicCheck = basicUrlAnalysis url
         in if \<not> safe basicCheck
            then (results\<lparr>safe := safe basicCheck, riskLevel := riskLevel basicCheck,
                          threatTypes := threatTypes basicCheck, details := details basicCheck\<rparr>,
                  log)
            else (results, log)))"

definition googleStage :: "scan_env \<Rightarrow> string \<Rightarrow> string \<Rightarrow> scan_state \<Rightarrow> scan_state" where
  "googleStage env url googleApiKey st =
     (case st of (results, log) \<Rightarrow>
        if googleApiKey \<noteq> []
        then (case checkWithGoogle env url googleApiKey log of
                (Inl error, log) \<Rightarrow> (results, log)
              | (Inr googleResult, log) \<Rightarrow>
                  if \<not> safe googleResult
                  then (results\<lparr>safe := False, riskLevel := High, googleSafe := False,
                                threatTypes := threatTypes googleResult,
                                details := details googleResult\<rparr>, log)
                  else (results, log))
        else (results, log))"

definition ipqsStage :: "scan_env \<Rightarrow> string \<Rightarrow> string \<Rightarrow> scan_state \<Rightarrow> scan_state" where
  "ipqsStage env url ipqsApiKey st =
     (case st of (results, log) \<Rightarrow>
        if ipqsApiKey \<noteq> [] \<and> safe results
        then (let domain = extractDomain env url
              in case checkDomainReputation env domain ipqsApiKey log of
                   (Inl error, log) \<Rightarrow> (results, log)
                 | (Inr ipqsResult, log) \<Rightarrow>
                     (let results = (if isMalicious ipqsResult \<or> isPhishing ipqsResult
                                     then results\<lparr>safe := False, riskLevel := High\<rparr>
                                     else results)
                      in (results\<lparr>domainReputation := reputation ipqsResult,
                                  riskScore := ipqs_riskScore ipqsResult\<rparr>, log)))
        else (results, log))"

definition virusTotalStage :: "scan_env \<Rightarrow> string \<Rightarrow> string \<Rightarrow> scan_state \<Rightarrow> scan_state" where
  "virusTotalStage env url vtApiKey st =
     (case st of (results, log) \<Rightarrow>
        if vtApiKey \<noteq> [] \<and> riskLevel results = High
        then (case checkWithVirusTotal env url vtApiKey log of
                (Inl error, log) \<Rightarrow> (results, log)
              | (Inr vtResult, log) \<Rightarrow>
                  if malicious vtResult > 0
                  then (results\<lparr>safe := False, riskLevel := High\<rparr>, log)
                  else (results, log))
        else (results, log))"

definition finalDetails :: "scan_result \<Rightarrow> scan_result" where
  "finalDetails results =
     (if safe results
      then results\<lparr>details := ''URL appears safe based on multiple checks''\<rparr>
      else results\<lparr>details := (if length (threatTypes results) > 0
                                then join '', '' (threatTypes results)
                                else ''Potential security threat detected'')\<rparr>)"

definition scanUrl_try :: "scan_env \<Rightarrow> string \<Rightarrow> (js_error + scan_result) \<times> request list" where
  \<comment> \<open>The body of the outer \<open>try\<close> block, after \<open>results\<close> is built.\<close>
  "scanUrl_try env url =
     (let st = basicStage url (initialResults env, [])
      in case getGoogleApiKey env of
           Inl e \<Rightarrow> (Inl e, snd st)
         | Inr googleApiKey \<Rightarrow>
             (let st = googleStage env url googleApiKey st
              in case getIpqsApiKey env of
                   Inl e \<Rightarrow> (Inl e, snd st)
                 | Inr ipqsApiKey \<Rightarrow>
                     (let st = ipqsStage env url ipqsApiKey st
                      in case getVtApiKey env of
                           Inl e \<Rightarrow> (Inl e, snd st)
                         | Inr vtApiKey \<Rightarrow>
                             (let st = virusTotalStage env url vtApiKey st
                              in (Inr (finalDetails (fst st)), snd st)))))"

definition scanFailed :: "scan_env \<Rightarrow> scan_result" where
  \<comment> \<open>The object the outer handler returns.\<close>
  "scanFailed env =
     \<lparr>safe = False, threatTypes = [''Scan failed''], details = ''Unable to complete security scan'',
      riskLevel = High, googleSafe = False, domainReputation = Low, riskScore = 100,
      timestamp = clock_catch env\<rparr>"

definition scanUrl :: "scan_env \<Rightarrow> string \<Rightarrow> scan_result \<times> request list" where
  "scanUrl env url =
     (case scanUrl_try env url of
        (Inr results, log) \<Rightarrow> (results, log)
      | (Inl error, log) \<Rightarrow> (scanFailed env, log))"

section \<open>Example environments\<close>

text \<open>Concrete surroundings of the scanner, on which the properties below are run.\<close>

definition exampleEnv ::
  "(string \<Rightarrow> string option) option \<Rightarrow> (js_error + string list option) \<Rightarrow> (js_error + ipqs_data)
     \<Rightarrow> (js_error + (string \<times> int) list option) \<Rightarrow> scan_env" where
  "exampleEnv vars g i v =
     \<lparr>meta_env = vars, fetch_threatMatches = (\<lambda>k u. g), fetch_ipqs = (\<lambda>k d. i),
      fetch_virustotal = (\<lambda>k b. v), url_hostname = (\<lambda>u. Some ''example.com''),
      encodeURIComponent = (\<lambda>s. s), btoa = (\<lambda>s. s), clock = 0, clock_catch = 1\<rparr>"

definition unreadableEnv :: scan_env where
  \<comment> \<open>No build environment object.\<close>
  "unreadableEnv = exampleEnv None (Inr None) (Inl (Thrown ''down'')) (Inr None)"

definition flaggingVars :: "string \<Rightarrow> string option" where
  "flaggingVars = map_of [(''VITE_GOOGLE_SAFE_BROWSING_API_KEY'', ''key-g'')]"

definition flaggingEnv :: scan_env where
  \<comment> \<open>Only the threat-match key is configured, and the service reports one match.\<close>
  "flaggingEnv =
     exampleEnv (Some flaggingVars) (Inr (Some [''MALWARE''])) (Inl (Thrown ''down''))
       (Inl (Thrown ''down''))"

definition reputationVars :: "string \<Rightarrow> string option" where
  "reputationVars = map_of [(''VITE_IPQUALITYSCORE_API_KEY'', ''key-i''),
                            (''VITE_VIRUSTOTAL_API_KEY'', ''key-v'')]"

definition reputationData :: ipqs_data where
  "reputationData = \<lparr>d_risk_score = Some 80, d_malicious = True, d_phishing = False,
                      d_suspicious = True, d_message = None\<rparr>"

definition reputationEnv :: scan_env where
  \<comment> \<open>The reputation and multi-engine keys are configured; the domain is reported malicious.\<close>
  "reputationEnv =
     exampleEnv (Some reputationVars) (Inr None) (Inr reputationData)
       (Inr (Some [(''malicious'', 3), (''undetected'', 60)]))"

definition passwordDigest :: "8 word list" where
  \<comment> \<open>The SHA-1 digest of the string password.\<close>
  "passwordDigest =
     [0x5B, 0xAA, 0x61, 0xE4, 0xC9, 0xB9, 0x3F, 0x3F, 0x06, 0x82,
      0x25, 0x0B, 0x6C, 0xF8, 0x33, 0x1B, 0x7E, 0xE6, 0x8F, 0xD8]"

definition rangeEnv :: "js_error + range_response \<Rightarrow> breach_env" where
  \<comment> \<open>The digest above for every input, and a fixed answer of the range service.\<close>
  "rangeEnv answer = \<lparr>digest_sha1 = (\<lambda>s. Inr passwordDigest), fetch_range = (\<lambda>p. answer)\<rparr>"

definition rangeBody :: string where
  \<comment> \<open>Three lines of a range answer, separated by CR LF.\<close>
  "rangeBody =
     ''0018A45C4D1DEF81644B54AB7F969B88D65:1'' @ [CHR 0x0D, CHR 0x0A]
     @ ''1E4C9B93F3F0682250B6CF8331B7EE68FD8:3861493'' @ [CHR 0x0D, CHR 0x0A]
     @ ''1E4C9B93F3F0682250B6CF8331B7EE68FD8:7''"

definition answeringEnv :: breach_env where
  "answeringEnv = rangeEnv (Inr \<lparr>ok = True, text_body = Inr rangeBody\<rparr>)"

section \<open>Properties of the password strength check\<close>

lemma checkStrength_shape:
  fixes p :: string
  defines "r \<equiv> checkStrength p"
  shows "0 \<le> score r \<and> score r \<le> 6
    \<and> strength r = (if score r \<ge> 5 then Strong else if score r \<ge> 3 then MediumStrength else Weak)
    \<and> (toLowerCase p \<in> set commonPasswords \<longrightarrow> score r = 0 \<and>
         (\<exists>pre. feedback r = pre @ [''Very common password - choose something unique'',
                                    ''Weak password - consider improving'']))"
proof -
  define vc where "vc \<equiv> ''Very common password - choose something unique''"
  define wk where "wk \<equiv> ''Weak password - consider improving''"
  define m1 where "m1 \<equiv> ''Should be at least 8 characters''"
  define m2 where "m2 \<equiv> ''Add uppercase letters''"
  define m3 where "m3 \<equiv> ''Add lowercase letters''"
  define m4 where "m4 \<equiv> ''Add numbers''"
  define m5 where "m5 \<equiv> ''Add special characters (!@#$%)''"
  define m6 where "m6 \<equiv> ''Strong password!''"
  define m7 where "m7 \<equiv> ''Medium strength - could be stronger''"
  define Q where "Q = (\<lambda>w (r::strength_result). 0 \<le> score r \<and> score r \<le> 6
    \<and> strength r = (if score r \<ge> 5 then Strong else if score r \<ge> 3 then MediumStrength else Weak)
    \<and> (w \<longrightarrow> score r = 0 \<and> (\<exists>pre. feedback r = pre @ [vc, wk])))"
  define a where "a \<equiv> 8 \<le> length p"
  define b where "b \<equiv> 12 \<le> length p"
  define c where "c \<equiv> length p < 8"
  define u where "u \<equiv> test False (Cls [(CHR ''A'', CHR ''Z'')]) p"
  define l where "l \<equiv> test False (Cls [(CHR ''a'', CHR ''z'')]) p"
  define d where "d \<equiv> test False (Cls [(CHR ''0'', CHR ''9'')]) p"
  define y where "y \<equiv> test False (NCls [(CHR ''A'', CHR ''Z''), (CHR ''a'', CHR ''z''), (CHR ''0'', CHR ''9'')]) p"
  define w where "w \<equiv> toLowerCase p \<in> set commonPasswords"
  have "Q w (checkStrength p)"
    unfolding checkStrength_def a_def[symmetric] b_def[symmetric] c_def[symmetric] u_def[symmetric]
     l_def[symmetric] d_def[symmetric] y_def[symmetric] w_def[symmetric]
     vc_def[symmetric] wk_def[symmetric] m1_def[symmetric] m2_def[symmetric] m3_def[symmetric]
     m4_def[symmetric] m5_def[symmetric] m6_def[symmetric] m7_def[symmetric]
    by (cases w; cases a; cases b; cases c; cases u; cases l; cases d; cases y; simp; simp add: Q_def)
  then show ?thesis unfolding Q_def r_def w_def vc_def wk_def by simp
qed

text \<open>
  Claim C2. A password whose lower-case form is one of the six common passwords gets
  score 0 and strength weak, whatever the length and character-class checks added, and
  the "very common password" entry is the last entry of the feedback before the summary
  line.
\<close>

theorem checkStrength_common_password:
  assumes "toLowerCase p \<in> set commonPasswords"
  shows "score (checkStrength p) = 0 \<and> strength (checkStrength p) = Weak
     \<and> (\<exists>pre. feedback (checkStrength p) =
               pre @ [''Very common password - choose something unique'',
                      ''Weak password - consider improving''])"
proof -
  from checkStrength_shape[of p] assms
  have s: "score (checkStrength p) = 0"
    and f: "\<exists>pre. feedback (checkStrength p) =
               pre @ [''Very common password - choose something unique'',
                      ''Weak password - consider improving'']"
    and t: "strength (checkStrength p) =
              (if score (checkStrength p) \<ge> 5 then Strong
               else if score (checkStrength p) \<ge> 3 then MediumStrength else Weak)"
    by blast+
  from t s have "strength (checkStrength p) = Weak" by simp
  with s f show ?thesis by blast
qed

theorem checkStrength_common_password_witness:
  "toLowerCase ''PassWord123'' \<in> set commonPasswords
   \<and> score (checkStrength ''PassWord123'') = 0
   \<and> strength (checkStrength ''PassWord123'') = Weak"
proof -
  have h: "toLowerCase ''PassWord123'' \<in> set commonPasswords"
    by code_simp
  from checkStrength_common_password[OF h] h show ?thesis by blast
qed

text \<open>
  Claim C3. For every password the score is an integer between 0 and 6, the value 6 is
  reached, and the strength is read off the score: strong exactly from 5 up, medium
  exactly for 3 and 4, weak exactly below 3.
\<close>

theorem checkStrength_score_strength:
  "0 \<le> score (checkStrength p) \<and> score (checkStrength p) \<le> 6
   \<and> (strength (checkStrength p) = Strong) = (5 \<le> score (checkStrength p))
   \<and> (strength (checkStrength p) = MediumStrength)
       = (3 \<le> score (checkStrength p) \<and> score (checkStrength p) < 5)
   \<and> (strength (checkStrength p) = Weak) = (score (checkStrength p) < 3)
   \<and> (\<exists>q. score (checkStrength q) = 6)"
proof -
  have six: "score (checkStrength ''Password123!'') = 6"
    by code_simp
  from checkStrength_shape[of p]
  have b: "0 \<le> score (checkStrength p)" "score (checkStrength p) \<le> 6"
    and t: "strength (checkStrength p) =
              (if score (checkStrength p) \<ge> 5 then Strong
               else if score (checkStrength p) \<ge> 3 then MediumStrength else Weak)"
    by blast+
  have "(strength (checkStrength p) = Strong) = (5 \<le> score (checkStrength p))"
    "(strength (checkStrength p) = MediumStrength)
       = (3 \<le> score (checkStrength p) \<and> score (checkStrength p) < 5)"
    "(strength (checkStrength p) = Weak) = (score (checkStrength p) < 3)"
    unfolding t by auto
  with b six show ?thesis by blast
qed

theorem checkStrength_score_strength_witness:
  "score (checkStrength ''Tr0ub4dor'') = 4 \<and> strength (checkStrength ''Tr0ub4dor'') = MediumStrength"
proof -
  have s: "score (checkStrength ''Tr0ub4dor'') = 4" by code_simp
  with checkStrength_score_strength[of "''Tr0ub4dor''"] show ?thesis by simp
qed

section \<open>Properties of the local URL heuristic\<close>

lemma foldl_push:
  "foldl (\<lambda>acc x. if P x then acc @ [f x] else acc) acc xs = acc @ map f (filter P xs)"
  by (induction xs arbitrary: acc) simp_all

lemma threatTypes_basic:
  "threatTypes (basicUrlAnalysis url) =
     map threat (filter (\<lambda>sp. test (ignoreCase sp) (pattern sp) (toLowerCase url)) suspiciousPatterns)
     @ (if startsWith url ''https://'' then [] else [''Not using HTTPS''])
     @ (if length url > 100 then [''Unusually long URL''] else [])"
  by (simp add: basicUrlAnalysis_def foldl_push Let_def)

lemma verdict_basic:
  "safe (basicUrlAnalysis url) = (length (threatTypes (basicUrlAnalysis url)) = 0)
   \<and> riskLevel (basicUrlAnalysis url) =
       (if length (threatTypes (basicUrlAnalysis url)) \<ge> 3 then High
        else if length (threatTypes (basicUrlAnalysis url)) \<ge> 1 then Medium else Low)"
  by (simp add: basicUrlAnalysis_def Let_def)

lemma test_at: "test False (Lit ''@'') s = (CHR ''@'' \<in> set s)"
  by (induction s) (auto simp: unitMatches_def)

lemma lower_at: "CHR ''@'' \<in> set url \<Longrightarrow> CHR ''@'' \<in> set (toLowerCase url)"
proof -
  assume "CHR ''@'' \<in> set url"
  then have "toLowerCaseUnit (CHR ''@'') \<in> set (toLowerCase url)"
    unfolding toLowerCase_def by simp
  then show ?thesis by (simp add: toLowerCaseUnit_def)
qed

lemma at_in_patterns:
  "\<lparr>pattern = Lit ''@'', ignoreCase = False, threat = ''Misleading @ symbol''\<rparr> \<in> set suspiciousPatterns"
  by (simp add: suspiciousPatterns_def)

text \<open>
  Claim C4. The threats of the local heuristic are one per matching pattern, one more when
  the URL does not start with the HTTPS scheme and one more when it is longer than 100
  code units; no threat gives safe with risk low, one or two give risk medium, three or
  more give risk high; a URL with an at sign and no HTTPS scheme has at least two
  threats, so it is not safe and its risk is not low.
\<close>

theorem basicUrlAnalysis_verdict:
  fixes url :: string
  defines "r \<equiv> basicUrlAnalysis url"
  defines "n \<equiv> length (filter (\<lambda>sp. test (ignoreCase sp) (pattern sp) (toLowerCase url))
                           suspiciousPatterns)
               + (if startsWith url ''https://'' then 0 else 1)
               + (if length url > 100 then 1 else 0)"
  shows "length (threatTypes r) = n
     \<and> safe r = (n = 0)
     \<and> riskLevel r = (if n \<ge> 3 then High else if n \<ge> 1 then Medium else Low)
     \<and> (CHR ''@'' \<in> set url \<and> \<not> startsWith url ''https://''
          \<longrightarrow> 2 \<le> n \<and> \<not> safe r \<and> riskLevel r \<noteq> Low)"
proof -
  have len: "length (threatTypes r) = n"
    unfolding r_def n_def threatTypes_basic by simp
  have v: "safe r = (n = 0)" "riskLevel r = (if n \<ge> 3 then High else if n \<ge> 1 then Medium else Low)"
    using verdict_basic[of url] unfolding r_def[symmetric] len by simp_all
  have two: "2 \<le> n" if a: "CHR ''@'' \<in> set url" and h: "\<not> startsWith url ''https://''"
  proof -
    let ?P = "\<lambda>sp. test (ignoreCase sp) (pattern sp) (toLowerCase url)"
    let ?at = "\<lparr>pattern = Lit ''@'', ignoreCase = False, threat = ''Misleading @ symbol''\<rparr>"
    have "?P ?at" using lower_at[OF a] by (simp add: test_at)
    then have "?at \<in> set (filter ?P suspiciousPatterns)" using at_in_patterns by simp
    then have "Suc 0 \<le> length (filter ?P suspiciousPatterns)"
      by (cases "filter ?P suspiciousPatterns") simp_all
    then show ?thesis using h unfolding n_def by simp
  qed
  have "\<not> safe r \<and> riskLevel r \<noteq> Low" if "2 \<le> n"
    using that unfolding v by simp
  with two len v show ?thesis by blast
qed

theorem basicUrlAnalysis_verdict_witness:
  "CHR ''@'' \<in> set ''http://user@host'' \<and> \<not> startsWith ''http://user@host'' ''https://''
   \<and> length (threatTypes (basicUrlAnalysis ''http://user@host'')) = 2
   \<and> \<not> safe (basicUrlAnalysis ''http://user@host'')
   \<and> riskLevel (basicUrlAnalysis ''http://user@host'') = Medium"
proof -
  have h: "CHR ''@'' \<in> set ''http://user@host'' \<and> \<not> startsWith ''http://user@host'' ''https://''"
    by (simp add: startsWith_def)
  have l: "length (threatTypes (basicUrlAnalysis ''http://user@host'')) = 2"
    by code_simp
  from basicUrlAnalysis_verdict[of "''http://user@host''"] h l show ?thesis
    by simp
qed





section \<open>Properties of the URL scan pipeline\<close>

lemma readKey_Some:
  "meta_env env = Some vars \<Longrightarrow>
     readKey env name = Inr (case vars name of None \<Rightarrow> [] | Some v \<Rightarrow> v)"
  by (simp add: readKey_def)

lemma scanUrl_stages:
  assumes "meta_env env = Some vars"
  shows "scanUrl env url =
     (let s1 = basicStage url (initialResults env, []);
          s2 = googleStage env url
                 (case vars ''VITE_GOOGLE_SAFE_BROWSING_API_KEY'' of None \<Rightarrow> [] | Some v \<Rightarrow> v) s1;
          s3 = ipqsStage env url
                 (case vars ''VITE_IPQUALITYSCORE_API_KEY'' of None \<Rightarrow> [] | Some v \<Rightarrow> v) s2;
          s4 = virusTotalStage env url
                 (case vars ''VITE_VIRUSTOTAL_API_KEY'' of None \<Rightarrow> [] | Some v \<Rightarrow> v) s3
      in (finalDetails (fst s4), snd s4))"
  unfolding scanUrl_def scanUrl_try_def getGoogleApiKey_def getIpqsApiKey_def getVtApiKey_def
    readKey_Some[OF assms]
  by (simp add: Let_def)

lemma scanUrl_failed:
  assumes "meta_env env = None"
  shows "scanUrl_try env url = (Inl (Thrown ''TypeError''), snd (basicStage url (initialResults env, [])))"
    and "fst (scanUrl env url) = scanFailed env"
  unfolding scanUrl_def scanUrl_try_def getGoogleApiKey_def readKey_def using assms
  by (simp_all add: Let_def)

text \<open>What each stage does to the verdict and to the requests.\<close>

lemma basicStage_fst:
  "fst (basicStage url (r, log)) =
     (if safe (basicUrlAnalysis url) then r
      else r\<lparr>safe := False, riskLevel := riskLevel (basicUrlAnalysis url),
             threatTypes := threatTypes (basicUrlAnalysis url),
             details := details (basicUrlAnalysis url)\<rparr>)"
  and basicStage_snd: "snd (basicStage url (r, log)) = log"
  by (simp_all add: basicStage_def Let_def)

lemma checkWithGoogle_cases:
  "checkWithGoogle env url k log =
     ((case fetch_threatMatches env k (normalizeUrl url) of
         Inl e \<Rightarrow> Inl e
       | Inr None \<Rightarrow> Inr \<lparr>safe = True, threatTypes = [],
                           details = ''Google Safe Browsing: No threats found''\<rparr>
       | Inr (Some ms) \<Rightarrow>
           if ms \<noteq> []
           then Inr \<lparr>safe = False, threatTypes = ms,
                     details = ''Google Safe Browsing: '' @ join '', '' ms @ '' detected''\<rparr>
           else Inr \<lparr>safe = True, threatTypes = [],
                     details = ''Google Safe Browsing: No threats found''\<rparr>),
      log @ [ThreatMatchesFind k (normalizeUrl url)])"
  by (simp add: checkWithGoogle_def Let_def split: sum.splits option.splits)

lemma googleStage_fst:
  "fst (googleStage env url k (r, log)) =
     (case fetch_threatMatches env k (normalizeUrl url) of
        Inr (Some ms) \<Rightarrow>
          if k \<noteq> [] \<and> ms \<noteq> []
          then r\<lparr>safe := False, riskLevel := High, googleSafe := False, threatTypes := ms,
                 details := ''Google Safe Browsing: '' @ join '', '' ms @ '' detected''\<rparr>
          else r
      | _ \<Rightarrow> r)"
  by (auto simp add: googleStage_def checkWithGoogle_cases split: sum.splits option.splits)

lemma googleStage_snd:
  "snd (googleStage env url k (r, log)) =
     (if k \<noteq> [] then log @ [ThreatMatchesFind k (normalizeUrl url)] else log)"
  by (simp add: googleStage_def checkWithGoogle_cases split: sum.splits option.splits)

lemma checkDomainReputation_Inl:
  "fetch_ipqs env k (encodeURIComponent env d) = Inl e \<Longrightarrow>
     checkDomainReputation env d k log = (Inl e, log @ [IpqsUrl k (encodeURIComponent env d)])"
  by (simp add: checkDomainReputation_def Let_def)

lemma checkDomainReputation_Inr:
  "fetch_ipqs env k (encodeURIComponent env d) = Inr data \<Longrightarrow>
     \<exists>res. checkDomainReputation env d k log = (Inr res, log @ [IpqsUrl k (encodeURIComponent env d)])
       \<and> reputation res = (case d_risk_score data of
                             None \<Rightarrow> High
                           | Some n \<Rightarrow> if n > 75 then Low else if n > 25 then Medium else High)
       \<and> ipqs_riskScore res = (case d_risk_score data of None \<Rightarrow> 0 | Some n \<Rightarrow> n)
       \<and> isMalicious res = d_malicious data
       \<and> isPhishing res = d_phishing data"
  by (simp add: checkDomainReputation_def Let_def greaterThan_def orZero_def split: option.splits)

lemma ipqsStage_skip:
  "\<not> (k \<noteq> [] \<and> safe r) \<Longrightarrow> ipqsStage env url k (r, log) = (r, log)"
  by (auto simp add: ipqsStage_def)

lemma ipqsStage_Inl:
  assumes "k \<noteq> []" "safe r"
    and "fetch_ipqs env k (encodeURIComponent env (extractDomain env url)) = Inl e"
  shows "ipqsStage env url k (r, log) =
           (r, log @ [IpqsUrl k (encodeURIComponent env (extractDomain env url))])"
  using assms(1,2) checkDomainReputation_Inl[OF assms(3), of log]
  by (simp add: ipqsStage_def Let_def)

lemma ipqsStage_Inr:
  assumes "k \<noteq> []" "safe r"
    and "fetch_ipqs env k (encodeURIComponent env (extractDomain env url)) = Inr data"
  shows "ipqsStage env url k (r, log) =
           ((if d_malicious data \<or> d_phishing data then r\<lparr>safe := False, riskLevel := High\<rparr> else r)
             \<lparr>domainReputation := (case d_risk_score data of
                                     None \<Rightarrow> High
                                   | Some n \<Rightarrow> if n > 75 then Low else if n > 25 then Medium else High),
              riskScore := (case d_risk_score data of None \<Rightarrow> 0 | Some n \<Rightarrow> n)\<rparr>,
            log @ [IpqsUrl k (encodeURIComponent env (extractDomain env url))])"
proof -
  from checkDomainReputation_Inr[OF assms(3), of log] obtain res where
    c: "checkDomainReputation env (extractDomain env url) k log =
          (Inr res, log @ [IpqsUrl k (encodeURIComponent env (extractDomain env url))])"
    and f: "reputation res = (case d_risk_score data of
                             None \<Rightarrow> High
                           | Some n \<Rightarrow> if n > 75 then Low else if n > 25 then Medium else High)"
      "ipqs_riskScore res = (case d_risk_score data of None \<Rightarrow> 0 | Some n \<Rightarrow> n)"
      "isMalicious res = d_malicious data" "isPhishing res = d_phishing data"
    by blast
  show ?thesis
    using assms(1,2) by (simp add: ipqsStage_def Let_def c f)
qed

lemma ipqsStage_snd:
  "snd (ipqsStage env url k (r, log)) =
     (if k \<noteq> [] \<and> safe r
      then log @ [IpqsUrl k (encodeURIComponent env (extractDomain env url))] else log)"
proof (cases "k \<noteq> [] \<and> safe r")
  case False
  then show ?thesis using ipqsStage_skip[of k r env url log] by auto
next
  case True
  then show ?thesis
    by (cases "fetch_ipqs env k (encodeURIComponent env (extractDomain env url))")
       (simp_all add: ipqsStage_Inl ipqsStage_Inr)
qed

lemma virusTotalStage_snd:
  "snd (virusTotalStage env url k (r, log)) =
     (if k \<noteq> [] \<and> riskLevel r = High
      then log @ [VirusTotalUrl k (filter (\<lambda>c. c \<noteq> CHR ''='') (btoa env url))] else log)"
  by (simp add: virusTotalStage_def checkWithVirusTotal_def Let_def split: sum.splits)

lemma virusTotalStage_fst:
  "fst (virusTotalStage env url k (r, log)) = r \<or>
   (riskLevel r = High \<and> fst (virusTotalStage env url k (r, log)) = r\<lparr>safe := False, riskLevel := High\<rparr>)"
  by (simp add: virusTotalStage_def checkWithVirusTotal_def Let_def split: sum.splits)


lemma basic_safe_no_threats:
  "safe (basicUrlAnalysis url) \<Longrightarrow> threatTypes (basicUrlAnalysis url) = []"
  using verdict_basic[of url] by simp

lemma ipqsStage_keeps:
  "threatTypes (fst (ipqsStage env url k (r, log))) = threatTypes r"
  "\<not> safe r \<Longrightarrow> fst (ipqsStage env url k (r, log)) = r"
  "riskLevel r = High \<Longrightarrow> riskLevel (fst (ipqsStage env url k (r, log))) = High"
  "riskLevel (fst (ipqsStage env url k (r, log))) = High \<Longrightarrow> riskLevel r \<noteq> High
     \<Longrightarrow> \<not> safe (fst (ipqsStage env url k (r, log)))"
proof -
  consider (skip) "\<not> (k \<noteq> [] \<and> safe r)"
    | (err) e where "k \<noteq> []" "safe r"
        "fetch_ipqs env k (encodeURIComponent env (extractDomain env url)) = Inl e"
    | (ok) data where "k \<noteq> []" "safe r"
        "fetch_ipqs env k (encodeURIComponent env (extractDomain env url)) = Inr data"
    by (cases "fetch_ipqs env k (encodeURIComponent env (extractDomain env url))") auto
  note c = this
  show "threatTypes (fst (ipqsStage env url k (r, log))) = threatTypes r"
    using c by cases (simp_all add: ipqsStage_skip ipqsStage_Inl ipqsStage_Inr)
  show "\<not> safe r \<Longrightarrow> fst (ipqsStage env url k (r, log)) = r"
    by (simp add: ipqsStage_skip)
  show "riskLevel r = High \<Longrightarrow> riskLevel (fst (ipqsStage env url k (r, log))) = High"
    using c by cases (simp_all add: ipqsStage_skip ipqsStage_Inl ipqsStage_Inr)
  show "riskLevel (fst (ipqsStage env url k (r, log))) = High \<Longrightarrow> riskLevel r \<noteq> High
     \<Longrightarrow> \<not> safe (fst (ipqsStage env url k (r, log)))"
    using c by cases (simp_all add: ipqsStage_skip ipqsStage_Inl ipqsStage_Inr split: if_splits)
qed

lemma virusTotalStage_keeps:
  "threatTypes (fst (virusTotalStage env url k (r, log))) = threatTypes r"
  "riskLevel (fst (virusTotalStage env url k (r, log))) = riskLevel r"
  "\<not> safe r \<Longrightarrow> fst (virusTotalStage env url k (r, log)) = r"
  "riskLevel r \<noteq> High \<Longrightarrow> virusTotalStage env url k (r, log) = (r, log)"
  using virusTotalStage_fst[of env url k r log]
  by (auto simp add: virusTotalStage_def)

lemma high_unsafe_basic:
  "riskLevel (fst (basicStage url (initialResults env, []))) = High
     \<Longrightarrow> \<not> safe (fst (basicStage url (initialResults env, [])))"
  by (simp add: basicStage_fst initialResults_def split: if_splits)

lemma high_unsafe_google:
  assumes "riskLevel r = High \<Longrightarrow> \<not> safe r"
  shows "riskLevel (fst (googleStage env url k (r, log))) = High
     \<Longrightarrow> \<not> safe (fst (googleStage env url k (r, log)))"
  using assms by (simp add: googleStage_fst split: sum.splits option.splits if_splits)

lemma high_unsafe_ipqs:
  assumes "riskLevel r = High \<Longrightarrow> \<not> safe r"
  shows "riskLevel (fst (ipqsStage env url k (r, log))) = High
     \<Longrightarrow> \<not> safe (fst (ipqsStage env url k (r, log)))"
  using assms ipqsStage_keeps(2,4) by (cases "riskLevel r = High") auto

lemma scanUrl_threatTypes:
  assumes "meta_env env = Some vars"
  shows "threatTypes (fst (scanUrl env url)) =
     (case fetch_threatMatches env
             (case vars ''VITE_GOOGLE_SAFE_BROWSING_API_KEY'' of None \<Rightarrow> [] | Some v \<Rightarrow> v)
             (normalizeUrl url) of
        Inr (Some ms) \<Rightarrow>
          if (case vars ''VITE_GOOGLE_SAFE_BROWSING_API_KEY'' of None \<Rightarrow> [] | Some v \<Rightarrow> v) \<noteq> []
             \<and> ms \<noteq> []
          then ms else threatTypes (basicUrlAnalysis url)
      | _ \<Rightarrow> threatTypes (basicUrlAnalysis url))"
proof -
  define gk where "gk = (case vars ''VITE_GOOGLE_SAFE_BROWSING_API_KEY'' of None \<Rightarrow> [] | Some v \<Rightarrow> v)"
  define s1 where "s1 = basicStage url (initialResults env, [])"
  have t1: "threatTypes (fst s1) = threatTypes (basicUrlAnalysis url)"
    unfolding s1_def by (simp add: basicStage_fst basic_safe_no_threats initialResults_def)
  obtain r1 l1 where s1: "s1 = (r1, l1)" by (cases s1)
  have t2: "threatTypes (fst (googleStage env url gk s1)) =
     (case fetch_threatMatches env gk (normalizeUrl url) of
        Inr (Some ms) \<Rightarrow> if gk \<noteq> [] \<and> ms \<noteq> [] then ms else threatTypes (basicUrlAnalysis url)
      | _ \<Rightarrow> threatTypes (basicUrlAnalysis url))"
    using t1 unfolding s1 by (simp add: googleStage_fst split: sum.splits option.splits)
  have k3: "threatTypes (fst (ipqsStage env url k st)) = threatTypes (fst st)" for k st
    by (cases st) (simp add: ipqsStage_keeps(1))
  have k4: "threatTypes (fst (virusTotalStage env url k st)) = threatTypes (fst st)" for k st
    by (cases st) (simp add: virusTotalStage_keeps(1))
  have k5: "threatTypes (finalDetails r) = threatTypes r" for r
    by (simp add: finalDetails_def)
  show ?thesis
    unfolding scanUrl_stages[OF assms] gk_def[symmetric] s1_def[symmetric]
    by (simp add: Let_def k3 k4 k5 t2)
qed

text \<open>
  Claim C1, as the code has it. When the pipeline does not fail, the final threat list is
  the list of the threat-match stage if that stage ran and flagged the URL (its list
  replaces the list of the local heuristic), and the list of the local heuristic
  otherwise; the later stages add and remove nothing. A verdict that is not safe with
  risk high is kept by every later stage.
\<close>

theorem scanUrl_threatTypes_and_high_verdict:
  "(meta_env env = Some vars \<longrightarrow>
      threatTypes (fst (scanUrl env url)) =
       (case fetch_threatMatches env
               (case vars ''VITE_GOOGLE_SAFE_BROWSING_API_KEY'' of None \<Rightarrow> [] | Some v \<Rightarrow> v)
               (normalizeUrl url) of
          Inr (Some ms) \<Rightarrow>
            if (case vars ''VITE_GOOGLE_SAFE_BROWSING_API_KEY'' of None \<Rightarrow> [] | Some v \<Rightarrow> v) \<noteq> []
               \<and> ms \<noteq> []
            then ms else threatTypes (basicUrlAnalysis url)
        | _ \<Rightarrow> threatTypes (basicUrlAnalysis url)))
   \<and> (\<not> safe r \<and> riskLevel r = High \<longrightarrow>
        \<not> safe (fst (googleStage env url k (r, log)))
      \<and> riskLevel (fst (googleStage env url k (r, log))) = High
      \<and> \<not> safe (fst (ipqsStage env url k (r, log)))
      \<and> riskLevel (fst (ipqsStage env url k (r, log))) = High
      \<and> \<not> safe (fst (virusTotalStage env url k (r, log)))
      \<and> riskLevel (fst (virusTotalStage env url k (r, log))) = High
      \<and> \<not> safe (finalDetails r)
      \<and> riskLevel (finalDetails r) = High)"
proof -
  have keep: "\<not> safe (fst (googleStage env url k (r, log)))
      \<and> riskLevel (fst (googleStage env url k (r, log))) = High
      \<and> \<not> safe (fst (ipqsStage env url k (r, log)))
      \<and> riskLevel (fst (ipqsStage env url k (r, log))) = High
      \<and> \<not> safe (fst (virusTotalStage env url k (r, log)))
      \<and> riskLevel (fst (virusTotalStage env url k (r, log))) = High
      \<and> \<not> safe (finalDetails r)
      \<and> riskLevel (finalDetails r) = High"
    if u: "\<not> safe r" and h: "riskLevel r = High"
  proof -
    have g: "\<not> safe (fst (googleStage env url k (r, log)))
             \<and> riskLevel (fst (googleStage env url k (r, log))) = High"
      using u h by (simp add: googleStage_fst split: sum.splits option.splits)
    have i: "fst (ipqsStage env url k (r, log)) = r"
      using u by (rule ipqsStage_keeps(2))
    have v: "fst (virusTotalStage env url k (r, log)) = r"
      using u by (rule virusTotalStage_keeps(3))
    have f: "\<not> safe (finalDetails r) \<and> riskLevel (finalDetails r) = High"
      using u h by (simp add: finalDetails_def)
    from g i v f u h show ?thesis by simp
  qed
  from keep scanUrl_threatTypes[of env vars url] show ?thesis by blast
qed

theorem scanUrl_threatTypes_and_high_verdict_witness:
  "meta_env flaggingEnv = Some flaggingVars
   \<and> threatTypes (fst (scanUrl flaggingEnv ''https://example.com'')) = [''MALWARE'']
   \<and> \<not> safe (scanFailed flaggingEnv) \<and> riskLevel (scanFailed flaggingEnv) = High
   \<and> \<not> safe (fst (googleStage flaggingEnv ''https://example.com'' ''key-g'' (scanFailed flaggingEnv, [])))
   \<and> riskLevel (finalDetails (scanFailed flaggingEnv)) = High"
proof -
  have m: "meta_env flaggingEnv = Some flaggingVars"
    by (simp add: flaggingEnv_def exampleEnv_def)
  have k: "(case flaggingVars ''VITE_GOOGLE_SAFE_BROWSING_API_KEY'' of None \<Rightarrow> [] | Some v \<Rightarrow> v)
             = ''key-g''"
    by (simp add: flaggingVars_def)
  have f: "fetch_threatMatches flaggingEnv ''key-g'' (normalizeUrl ''https://example.com'')
             = Inr (Some [''MALWARE''])"
    by (simp add: flaggingEnv_def exampleEnv_def)
  have u: "\<not> safe (scanFailed flaggingEnv) \<and> riskLevel (scanFailed flaggingEnv) = High"
    by (simp add: scanFailed_def)
  from scanUrl_threatTypes_and_high_verdict
         [of flaggingEnv flaggingVars "''https://example.com''" "scanFailed flaggingEnv"
             "''key-g''" "[]"]
  show ?thesis using m u unfolding k f by simp
qed

theorem scanUrl_threatTypes_counterexample:
  "threatTypes (basicUrlAnalysis ''http://user@host'') = [''Misleading @ symbol'', ''Not using HTTPS'']
   \<and> threatTypes (fst (scanUrl flaggingEnv ''http://user@host'')) = [''MALWARE'']
   \<and> ''Misleading @ symbol'' \<notin> set (threatTypes (fst (scanUrl flaggingEnv ''http://user@host'')))"
  by code_simp

text \<open>
  Claim C5. With the build environment readable, a request goes to the domain-reputation
  service exactly when its key is configured and the verdict after the threat-match stage
  is still safe (so never once the local heuristic or the threat-match stage said unsafe),
  and a request goes to the multi-engine service exactly when its key is configured and
  the risk after the reputation stage is high. A stage whose condition fails leaves the
  state as it was, and the multi-engine stage never changes the verdict at all.
\<close>

theorem scanUrl_stage_conditions:
  fixes env :: scan_env and url :: string and vars :: "string \<Rightarrow> string option"
  defines "gk \<equiv> (case vars ''VITE_GOOGLE_SAFE_BROWSING_API_KEY'' of None \<Rightarrow> [] | Some v \<Rightarrow> v)"
  defines "ik \<equiv> (case vars ''VITE_IPQUALITYSCORE_API_KEY'' of None \<Rightarrow> [] | Some v \<Rightarrow> v)"
  defines "vk \<equiv> (case vars ''VITE_VIRUSTOTAL_API_KEY'' of None \<Rightarrow> [] | Some v \<Rightarrow> v)"
  defines "s1 \<equiv> basicStage url (initialResults env, [])"
  defines "s2 \<equiv> googleStage env url gk s1"
  defines "s3 \<equiv> ipqsStage env url ik s2"
  defines "s4 \<equiv> virusTotalStage env url vk s3"
  assumes m: "meta_env env = Some vars"
  shows "scanUrl env url = (finalDetails (fst s4), snd s4)
     \<and> ((\<exists>k d. IpqsUrl k d \<in> set (snd (scanUrl env url))) = (ik \<noteq> [] \<and> safe (fst s2)))
     \<and> ((\<exists>k b. VirusTotalUrl k b \<in> set (snd (scanUrl env url)))
          = (vk \<noteq> [] \<and> riskLevel (fst s3) = High))
     \<and> (safe (fst s2) \<longrightarrow> safe (basicUrlAnalysis url))
     \<and> (\<not> (ik \<noteq> [] \<and> safe (fst s2)) \<longrightarrow> s3 = s2)
     \<and> (\<not> (vk \<noteq> [] \<and> riskLevel (fst s3) = High) \<longrightarrow> s4 = s3)
     \<and> fst s4 = fst s3"
proof -
  obtain r1 l1 where s1: "s1 = (r1, l1)" by (cases s1)
  obtain r2 l2 where s2: "s2 = (r2, l2)" by (cases s2)
  obtain r3 l3 where s3: "s3 = (r3, l3)" by (cases s3)
  have l1: "l1 = []" using s1 basicStage_snd[of url "initialResults env" "[]"] unfolding s1_def by simp
  have l2: "l2 = (if gk \<noteq> [] then [ThreatMatchesFind gk (normalizeUrl url)] else [])"
    using s2 googleStage_snd[of env url gk r1 l1] unfolding s2_def s1 l1 by simp
  have l3: "l3 = (if ik \<noteq> [] \<and> safe r2
                  then l2 @ [IpqsUrl ik (encodeURIComponent env (extractDomain env url))] else l2)"
    using s3 ipqsStage_snd[of env url ik r2 l2] unfolding s3_def s2 by simp
  have l4: "snd s4 = (if vk \<noteq> [] \<and> riskLevel r3 = High
                  then l3 @ [VirusTotalUrl vk (filter (\<lambda>c. c \<noteq> CHR ''='') (btoa env url))] else l3)"
    using virusTotalStage_snd[of env url vk r3 l3] unfolding s4_def s3 by simp
  have whole: "scanUrl env url = (finalDetails (fst s4), snd s4)"
    unfolding scanUrl_stages[OF m] s4_def s3_def s2_def s1_def gk_def ik_def vk_def
    by (simp add: Let_def)
  have ipqs: "(\<exists>k d. IpqsUrl k d \<in> set (snd (scanUrl env url))) = (ik \<noteq> [] \<and> safe (fst s2))"
    unfolding whole l4 l3 l2 s2 by auto
  have vt: "(\<exists>k b. VirusTotalUrl k b \<in> set (snd (scanUrl env url)))
          = (vk \<noteq> [] \<and> riskLevel (fst s3) = High)"
    unfolding whole l4 l3 l2 s3 by auto
  have r1: "r1 = fst (basicStage url (initialResults env, []))"
    using s1 unfolding s1_def by simp
  have inv1: "riskLevel r1 = High \<Longrightarrow> \<not> safe r1"
    unfolding r1 by (rule high_unsafe_basic)
  have r2: "r2 = fst (googleStage env url gk (r1, l1))"
    using s2 unfolding s2_def s1 by simp
  have inv2: "riskLevel r2 = High \<Longrightarrow> \<not> safe r2"
    unfolding r2 using inv1 by (rule high_unsafe_google)
  have r3: "r3 = fst (ipqsStage env url ik (r2, l2))"
    using s3 unfolding s3_def s2 by simp
  have inv3: "riskLevel r3 = High \<Longrightarrow> \<not> safe r3"
    unfolding r3 using inv2 by (rule high_unsafe_ipqs)
  have same: "fst s4 = fst s3"
  proof (cases "riskLevel r3 = High")
    case True
    then show ?thesis unfolding s4_def s3 using inv3 by (simp add: virusTotalStage_keeps(3))
  next
    case False
    then show ?thesis unfolding s4_def s3 by (simp add: virusTotalStage_keeps(4))
  qed
  have basic: "safe (basicUrlAnalysis url)" if "safe (fst s2)"
  proof (rule ccontr)
    assume "\<not> safe (basicUrlAnalysis url)"
    then have "\<not> safe r1" unfolding r1 by (simp add: basicStage_fst)
    then have "\<not> safe r2" unfolding r2 by (simp add: googleStage_fst split: sum.splits option.splits)
    with that show False unfolding s2 by simp
  qed
  have skip3: "s3 = s2" if "\<not> (ik \<noteq> [] \<and> safe (fst s2))"
    using that unfolding s3_def s2 by (simp add: ipqsStage_skip)
  have skip4: "s4 = s3" if "\<not> (vk \<noteq> [] \<and> riskLevel (fst s3) = High)"
    using that unfolding s4_def s3 by (auto simp add: virusTotalStage_def)
  from whole ipqs vt basic skip3 skip4 same show ?thesis by blast
qed

theorem scanUrl_stage_conditions_witness:
  "meta_env reputationEnv = Some reputationVars
   \<and> (\<exists>k d. IpqsUrl k d \<in> set (snd (scanUrl reputationEnv ''https://example.com'')))
   \<and> (\<exists>k b. VirusTotalUrl k b \<in> set (snd (scanUrl reputationEnv ''https://example.com'')))
   \<and> \<not> (\<exists>k d. IpqsUrl k d \<in> set (snd (scanUrl reputationEnv ''http://example.com'')))
   \<and> \<not> (\<exists>k b. VirusTotalUrl k b \<in> set (snd (scanUrl reputationEnv ''http://example.com'')))"
proof -
  have m: "meta_env reputationEnv = Some reputationVars"
    by (simp add: reputationEnv_def exampleEnv_def)
  have c3: "(case reputationVars ''VITE_IPQUALITYSCORE_API_KEY'' of None \<Rightarrow> [] | Some v \<Rightarrow> v) \<noteq> []
     \<and> safe (fst (googleStage reputationEnv ''https://example.com''
                    (case reputationVars ''VITE_GOOGLE_SAFE_BROWSING_API_KEY'' of None \<Rightarrow> [] | Some v \<Rightarrow> v)
                    (basicStage ''https://example.com'' (initialResults reputationEnv, []))))"
    by code_simp
  have c4: "(case reputationVars ''VITE_VIRUSTOTAL_API_KEY'' of None \<Rightarrow> [] | Some v \<Rightarrow> v) \<noteq> []
     \<and> riskLevel (fst (ipqsStage reputationEnv ''https://example.com''
                    (case reputationVars ''VITE_IPQUALITYSCORE_API_KEY'' of None \<Rightarrow> [] | Some v \<Rightarrow> v)
                    (googleStage reputationEnv ''https://example.com''
                    (case reputationVars ''VITE_GOOGLE_SAFE_BROWSING_API_KEY'' of None \<Rightarrow> [] | Some v \<Rightarrow> v)
                    (basicStage ''https://example.com'' (initialResults reputationEnv, []))))) = High"
    by code_simp
  have n3: "\<not> safe (basicUrlAnalysis ''http://example.com'')"
    by code_simp
  from scanUrl_stage_conditions[OF m, of "''https://example.com''"] c3 c4
  have a: "(\<exists>k d. IpqsUrl k d \<in> set (snd (scanUrl reputationEnv ''https://example.com'')))
   \<and> (\<exists>k b. VirusTotalUrl k b \<in> set (snd (scanUrl reputationEnv ''https://example.com'')))"
    by blast
  have n4: "riskLevel (fst (ipqsStage reputationEnv ''http://example.com''
                    (case reputationVars ''VITE_IPQUALITYSCORE_API_KEY'' of None \<Rightarrow> [] | Some v \<Rightarrow> v)
                    (googleStage reputationEnv ''http://example.com''
                    (case reputationVars ''VITE_GOOGLE_SAFE_BROWSING_API_KEY'' of None \<Rightarrow> [] | Some v \<Rightarrow> v)
                    (basicStage ''http://example.com'' (initialResults reputationEnv, []))))) \<noteq> High"
    by code_simp
  from scanUrl_stage_conditions[OF m, of "''http://example.com''"] n3
  have b: "\<not> (\<exists>k d. IpqsUrl k d \<in> set (snd (scanUrl reputationEnv ''http://example.com'')))"
    by blast
  from scanUrl_stage_conditions[OF m, of "''http://example.com''"] n4
  have c: "\<not> (\<exists>k b. VirusTotalUrl k b \<in> set (snd (scanUrl reputationEnv ''http://example.com'')))"
    by blast
  from m a b c show ?thesis by blast
qed

text \<open>
  Claim C6. A response of the domain-reputation service is mapped with the inverted
  scale: a risk score above 75 gives reputation low, above 25 gives medium, anything else
  gives high. When the stage runs in the scan and the service answers, the reputation and
  the risk score of the result are those of this stage, and a malicious or phishing flag
  makes the result not safe with risk high.
\<close>

theorem domain_reputation_stage:
  fixes env :: scan_env and url :: string and vars :: "string \<Rightarrow> string option"
  defines "gk \<equiv> (case vars ''VITE_GOOGLE_SAFE_BROWSING_API_KEY'' of None \<Rightarrow> [] | Some v \<Rightarrow> v)"
  defines "ik \<equiv> (case vars ''VITE_IPQUALITYSCORE_API_KEY'' of None \<Rightarrow> [] | Some v \<Rightarrow> v)"
  defines "s2 \<equiv> googleStage env url gk (basicStage url (initialResults env, []))"
  defines "label \<equiv> (\<lambda>score. case score of
                       None \<Rightarrow> High
                     | Some (n :: int) \<Rightarrow> if n > 75 then Low else if n > 25 then Medium else High)"
  shows "(\<forall>dom k lg dt. fetch_ipqs env k (encodeURIComponent env dom) = Inr dt \<longrightarrow>
            (\<exists>res. fst (checkDomainReputation env dom k lg) = Inr res
                \<and> reputation res = label (d_risk_score dt)
                \<and> ipqs_riskScore res = (case d_risk_score dt of None \<Rightarrow> 0 | Some n \<Rightarrow> n)))
     \<and> (meta_env env = Some vars \<and> ik \<noteq> [] \<and> safe (fst s2)
          \<and> fetch_ipqs env ik (encodeURIComponent env (extractDomain env url)) = Inr data
        \<longrightarrow> domainReputation (fst (scanUrl env url)) = label (d_risk_score data)
          \<and> riskScore (fst (scanUrl env url)) = (case d_risk_score data of None \<Rightarrow> 0 | Some n \<Rightarrow> n)
          \<and> (d_malicious data \<or> d_phishing data
               \<longrightarrow> \<not> safe (fst (scanUrl env url)) \<and> riskLevel (fst (scanUrl env url)) = High))"
proof -
  have map: "\<exists>res. fst (checkDomainReputation env dom k lg) = Inr res
                \<and> reputation res = label (d_risk_score dt)
                \<and> ipqs_riskScore res = (case d_risk_score dt of None \<Rightarrow> 0 | Some n \<Rightarrow> n)"
    if "fetch_ipqs env k (encodeURIComponent env dom) = Inr dt" for dom k lg dt
    using checkDomainReputation_Inr[OF that, of lg] unfolding label_def by auto
  have run: "domainReputation (fst (scanUrl env url)) = label (d_risk_score data)
          \<and> riskScore (fst (scanUrl env url)) = (case d_risk_score data of None \<Rightarrow> 0 | Some n \<Rightarrow> n)
          \<and> (d_malicious data \<or> d_phishing data
               \<longrightarrow> \<not> safe (fst (scanUrl env url)) \<and> riskLevel (fst (scanUrl env url)) = High)"
    if m: "meta_env env = Some vars" and k: "ik \<noteq> []" and s: "safe (fst s2)"
      and f: "fetch_ipqs env ik (encodeURIComponent env (extractDomain env url)) = Inr data"
  proof -
    define vk where "vk = (case vars ''VITE_VIRUSTOTAL_API_KEY'' of None \<Rightarrow> [] | Some v \<Rightarrow> v)"
    obtain r2 l2 where s2: "s2 = (r2, l2)" by (cases s2)
    from s have sr: "safe r2" unfolding s2 by simp
    define r3 where "r3 = (if d_malicious data \<or> d_phishing data
                           then r2\<lparr>safe := False, riskLevel := High\<rparr> else r2)
             \<lparr>domainReputation := label (d_risk_score data),
              riskScore := (case d_risk_score data of None \<Rightarrow> 0 | Some n \<Rightarrow> n)\<rparr>"
    define l3 where "l3 = l2 @ [IpqsUrl ik (encodeURIComponent env (extractDomain env url))]"
    have s3: "ipqsStage env url ik s2 = (r3, l3)"
      unfolding s2 r3_def l3_def label_def using ipqsStage_Inr[OF k sr f, of l2] by simp
    have whole: "fst (scanUrl env url) = finalDetails (fst (virusTotalStage env url vk (r3, l3)))"
      unfolding scanUrl_stages[OF m] gk_def[symmetric] ik_def[symmetric] vk_def[symmetric]
      by (simp add: Let_def s2_def[symmetric] s3)
    have v: "fst (virusTotalStage env url vk (r3, l3)) = r3 \<or>
        (riskLevel r3 = High \<and> fst (virusTotalStage env url vk (r3, l3)) = r3\<lparr>safe := False, riskLevel := High\<rparr>)"
      by (rule virusTotalStage_fst)
    have fd: "domainReputation (finalDetails x) = domainReputation x"
      "riskScore (finalDetails x) = riskScore x" "safe (finalDetails x) = safe x"
      "riskLevel (finalDetails x) = riskLevel x" for x
      by (simp_all add: finalDetails_def)
    from v show ?thesis unfolding whole fd by (auto simp add: r3_def)
  qed
  from map run show ?thesis by blast
qed

theorem domain_reputation_stage_witness:
  "meta_env reputationEnv = Some reputationVars
   \<and> fetch_ipqs reputationEnv ''key-i''
        (encodeURIComponent reputationEnv (extractDomain reputationEnv ''https://example.com''))
       = Inr reputationData
   \<and> d_risk_score reputationData = Some 80
   \<and> domainReputation (fst (scanUrl reputationEnv ''https://example.com'')) = Low
   \<and> riskScore (fst (scanUrl reputationEnv ''https://example.com'')) = 80
   \<and> \<not> safe (fst (scanUrl reputationEnv ''https://example.com''))
   \<and> riskLevel (fst (scanUrl reputationEnv ''https://example.com'')) = High"
proof -
  have m: "meta_env reputationEnv = Some reputationVars"
    by (simp add: reputationEnv_def exampleEnv_def)
  have k: "(case reputationVars ''VITE_IPQUALITYSCORE_API_KEY'' of None \<Rightarrow> [] | Some v \<Rightarrow> v)
             = ''key-i''"
    by (simp add: reputationVars_def)
  have s: "safe (fst (googleStage reputationEnv ''https://example.com''
                    (case reputationVars ''VITE_GOOGLE_SAFE_BROWSING_API_KEY'' of None \<Rightarrow> [] | Some v \<Rightarrow> v)
                    (basicStage ''https://example.com'' (initialResults reputationEnv, []))))"
    by code_simp
  have f: "fetch_ipqs reputationEnv ''key-i''
        (encodeURIComponent reputationEnv (extractDomain reputationEnv ''https://example.com''))
       = Inr reputationData"
    by (simp add: reputationEnv_def exampleEnv_def)
  have d: "d_risk_score reputationData = Some 80" "d_malicious reputationData"
    by (simp_all add: reputationData_def)
  from domain_reputation_stage[of reputationEnv reputationVars "''https://example.com''" reputationData]
  show ?thesis using m s f d unfolding k by simp
qed

text \<open>
  Claim C7, as the code has it. The scan never hands a failure to its caller: whenever
  the body of the pipeline raises, the result is the fallback object (not safe, risk high,
  risk score 100, and the single threat "Scan failed", written with a capital S),
  otherwise it is the object the body built. The body raises exactly when the build
  environment object cannot be read; a failure of a service never reaches the handler.
\<close>

theorem scanUrl_never_throws:
  "(\<forall>e log. scanUrl_try env url = (Inl e, log) \<longrightarrow>
       safe (fst (scanUrl env url)) = False
     \<and> riskLevel (fst (scanUrl env url)) = High
     \<and> riskScore (fst (scanUrl env url)) = 100
     \<and> threatTypes (fst (scanUrl env url)) = [''Scan failed''])
   \<and> (\<forall>r log. scanUrl_try env url = (Inr r, log) \<longrightarrow> scanUrl env url = (r, log))
   \<and> ((\<exists>e log. scanUrl_try env url = (Inl e, log)) = (meta_env env = None))"
proof -
  have a: "fst (scanUrl env url) = scanFailed env" if "scanUrl_try env url = (Inl e, log)" for e log
    using that by (simp add: scanUrl_def)
  have b: "scanUrl env url = (r, log)" if "scanUrl_try env url = (Inr r, log)" for r log
    using that by (simp add: scanUrl_def)
  have c: "(\<exists>e log. scanUrl_try env url = (Inl e, log)) = (meta_env env = None)"
  proof (cases "meta_env env")
    case None
    then show ?thesis using scanUrl_failed(1)[of env url] by auto
  next
    case (Some vars)
    then show ?thesis
      unfolding scanUrl_try_def getGoogleApiKey_def getIpqsApiKey_def getVtApiKey_def
        readKey_Some[OF Some]
      by (simp add: Let_def)
  qed
  from a b c show ?thesis by (simp add: scanFailed_def)
qed

theorem scanUrl_never_throws_witness:
  "meta_env unreadableEnv = None
   \<and> safe (fst (scanUrl unreadableEnv ''https://example.com'')) = False
   \<and> riskLevel (fst (scanUrl unreadableEnv ''https://example.com'')) = High
   \<and> riskScore (fst (scanUrl unreadableEnv ''https://example.com'')) = 100
   \<and> threatTypes (fst (scanUrl unreadableEnv ''https://example.com'')) = [''Scan failed'']"
proof -
  have h: "meta_env unreadableEnv = None" by (simp add: unreadableEnv_def exampleEnv_def)
  from scanUrl_never_throws[of unreadableEnv "''https://example.com''"]
  have "\<exists>e log. scanUrl_try unreadableEnv ''https://example.com'' = (Inl e, log)"
    using h by blast
  then obtain e log where "scanUrl_try unreadableEnv ''https://example.com'' = (Inl e, log)"
    by blast
  with scanUrl_never_throws[of unreadableEnv "''https://example.com''"] h show ?thesis by blast
qed

theorem scanUrl_fallback_literal_counterexample:
  "(\<exists>e log. scanUrl_try unreadableEnv ''https://example.com'' = (Inl e, log))
   \<and> threatTypes (fst (scanUrl unreadableEnv ''https://example.com'')) = [''Scan failed'']
   \<and> threatTypes (fst (scanUrl unreadableEnv ''https://example.com'')) \<noteq> [''scan failed'']"
proof -
  have h: "meta_env unreadableEnv = None" by (simp add: unreadableEnv_def exampleEnv_def)
  from scanUrl_failed[OF h, of "''https://example.com''"]
  have f: "\<exists>e log. scanUrl_try unreadableEnv ''https://example.com'' = (Inl e, log)"
    and r: "fst (scanUrl unreadableEnv ''https://example.com'') = scanFailed unreadableEnv"
    by blast+
  have t: "threatTypes (scanFailed unreadableEnv) = [''Scan failed'']"
    by (simp add: scanFailed_def)
  from f t show ?thesis unfolding r by simp
qed

section \<open>Properties of the breach lookup\<close>

lemma checkPasswordBreach_failures:
  "sha1 env password = Inl e \<Longrightarrow> checkPasswordBreach_try env password = Inl e"
  "sha1 env password = Inr h \<Longrightarrow> fetch_range env (take 5 h) = Inl e
     \<Longrightarrow> checkPasswordBreach_try env password = Inl e"
  "sha1 env password = Inr h \<Longrightarrow> fetch_range env (take 5 h) = Inr resp \<Longrightarrow> \<not> ok resp
     \<Longrightarrow> checkPasswordBreach_try env password = Inl (Thrown ''API request failed'')"
  "sha1 env password = Inr h \<Longrightarrow> fetch_range env (take 5 h) = Inr resp \<Longrightarrow> ok resp
     \<Longrightarrow> text_body resp = Inl e \<Longrightarrow> checkPasswordBreach_try env password = Inl e"
  by (simp_all add: checkPasswordBreach_try_def Let_def)

lemma checkPasswordBreach_read:
  assumes "sha1 env password = Inr h" "fetch_range env (take 5 h) = Inr resp" "ok resp"
    "text_body resp = Inr data"
  shows "checkPasswordBreach env password =
     (case find (\<lambda>hash. startsWith hash (toUpperCase (drop 5 h))) (split_on (CHR 0x0A) data) of
        Some line \<Rightarrow>
          if line \<noteq> []
          then \<lparr>isBreached = True, breachCount = parseInt (secondField line),
                breach_details = ''Found in '' @ numberToString (parseInt (secondField line))
                                 @ '' data breaches!''\<rparr>
          else \<lparr>isBreached = False, breachCount = Finite 0, breach_details = ''No breaches found''\<rparr>
      | None \<Rightarrow> \<lparr>isBreached = False, breachCount = Finite 0, breach_details = ''No breaches found''\<rparr>)"
  using assms
  by (simp add: checkPasswordBreach_def checkPasswordBreach_try_def Let_def split: option.splits)

lemma sha1_Inl: "(\<exists>e. sha1 env password = Inl e) = (\<exists>e. digest_sha1 env password = Inl e)"
  by (auto simp add: sha1_def split: sum.splits)

lemma breached_only_if:
  assumes "isBreached (checkPasswordBreach env password)"
  shows "\<exists>h resp data line. sha1 env password = Inr h \<and> fetch_range env (take 5 h) = Inr resp
           \<and> ok resp \<and> text_body resp = Inr data
           \<and> line \<in> set (split_on (CHR 0x0A) data)
           \<and> startsWith line (toUpperCase (drop 5 h))"
proof (cases "sha1 env password")
  case (Inl e)
  with assms show ?thesis
    by (simp add: checkPasswordBreach_def checkPasswordBreach_failures(1))
next
  case (Inr h)
  show ?thesis
  proof (cases "fetch_range env (take 5 h)")
    case (Inl e)
    with assms Inr show ?thesis
      by (simp add: checkPasswordBreach_def checkPasswordBreach_failures(2))
  next
    case resp: (Inr resp)
    show ?thesis
    proof (cases "ok resp")
      case False
      with assms Inr resp show ?thesis
        by (simp add: checkPasswordBreach_def checkPasswordBreach_failures(3))
    next
      case True
      show ?thesis
      proof (cases "text_body resp")
        case (Inl e)
        with assms Inr resp True show ?thesis
          by (simp add: checkPasswordBreach_def checkPasswordBreach_failures(4))
      next
        case data: (Inr data)
        from assms obtain line where
          f: "find (\<lambda>hash. startsWith hash (toUpperCase (drop 5 h))) (split_on (CHR 0x0A) data) = Some line"
          unfolding checkPasswordBreach_read[OF Inr resp True data]
          by (auto split: option.splits)
        then have "line \<in> set (split_on (CHR 0x0A) data) \<and> startsWith line (toUpperCase (drop 5 h))"
          by (auto simp add: find_Some_iff)
        with Inr resp True data show ?thesis by blast
      qed
    qed
  qed
qed

text \<open>
  Claim C8, as the code has it. The breach lookup never hands a failure to its caller:
  a failure of the digest, a transport error, a response that is not ok and a body that
  cannot be read all give the degraded result (not breached, count 0, "Unable to check
  breaches"). A body that was read is not validated; a breach is reported only when the
  response was ok and a line of its body starts with the suffix.
\<close>

theorem checkPasswordBreach_degrades:
  "(((\<exists>e. digest_sha1 env password = Inl e)
      \<or> (\<exists>h e. sha1 env password = Inr h \<and> fetch_range env (take 5 h) = Inl e)
      \<or> (\<exists>h resp. sha1 env password = Inr h \<and> fetch_range env (take 5 h) = Inr resp
             \<and> (\<not> ok resp \<or> (\<exists>e. text_body resp = Inl e))))
     \<longrightarrow> checkPasswordBreach env password =
           \<lparr>isBreached = False, breachCount = Finite 0,
            breach_details = ''Unable to check breaches''\<rparr>)
   \<and> (isBreached (checkPasswordBreach env password) \<longrightarrow>
        (\<exists>h resp data line. sha1 env password = Inr h \<and> fetch_range env (take 5 h) = Inr resp
           \<and> ok resp \<and> text_body resp = Inr data
           \<and> line \<in> set (split_on (CHR 0x0A) data)
           \<and> startsWith line (toUpperCase (drop 5 h))))"
proof -
  have d: "checkPasswordBreach env password =
           \<lparr>isBreached = False, breachCount = Finite 0, breach_details = ''Unable to check breaches''\<rparr>"
    if "checkPasswordBreach_try env password = Inl e" for e
    using that by (simp add: checkPasswordBreach_def)
  have 1: "\<exists>e. checkPasswordBreach_try env password = Inl e" if "\<exists>e. digest_sha1 env password = Inl e"
    using that checkPasswordBreach_failures(1)[of env password] sha1_Inl[of env password] by blast
  have 2: "\<exists>e. checkPasswordBreach_try env password = Inl e"
    if "\<exists>h e. sha1 env password = Inr h \<and> fetch_range env (take 5 h) = Inl e"
    using that checkPasswordBreach_failures(2)[of env password] by blast
  have 3: "\<exists>e. checkPasswordBreach_try env password = Inl e"
    if "\<exists>h resp. sha1 env password = Inr h \<and> fetch_range env (take 5 h) = Inr resp
             \<and> (\<not> ok resp \<or> (\<exists>e. text_body resp = Inl e))"
  proof -
    from that obtain h resp where a: "sha1 env password = Inr h" "fetch_range env (take 5 h) = Inr resp"
      and b: "\<not> ok resp \<or> (\<exists>e. text_body resp = Inl e)" by blast
    show ?thesis
    proof (cases "ok resp")
      case False
      then show ?thesis using checkPasswordBreach_failures(3)[OF a] by blast
    next
      case True
      with b obtain e where "text_body resp = Inl e" by blast
      then show ?thesis using checkPasswordBreach_failures(4)[OF a True] by blast
    qed
  qed
  from d 1 2 3 breached_only_if[of env password] show ?thesis by blast
qed

theorem checkPasswordBreach_degrades_witness:
  "fetch_range (rangeEnv (Inl (Thrown ''network''))) ''5BAA6'' = Inl (Thrown ''network'')
   \<and> sha1 (rangeEnv (Inl (Thrown ''network''))) ''password''
        = Inr ''5BAA61E4C9B93F3F0682250B6CF8331B7EE68FD8''
   \<and> checkPasswordBreach (rangeEnv (Inl (Thrown ''network''))) ''password'' =
           \<lparr>isBreached = False, breachCount = Finite 0,
            breach_details = ''Unable to check breaches''\<rparr>"
proof -
  have s: "sha1 (rangeEnv (Inl (Thrown ''network''))) ''password''
        = Inr ''5BAA61E4C9B93F3F0682250B6CF8331B7EE68FD8''"
    by code_simp
  have f: "fetch_range (rangeEnv (Inl (Thrown ''network''))) (take 5 ''5BAA61E4C9B93F3F0682250B6CF8331B7EE68FD8'')
             = Inl (Thrown ''network'')"
    by (simp add: rangeEnv_def)
  from s f have "\<exists>h e. sha1 (rangeEnv (Inl (Thrown ''network''))) ''password'' = Inr h
                   \<and> fetch_range (rangeEnv (Inl (Thrown ''network''))) (take 5 h) = Inl e"
    by blast
  with checkPasswordBreach_degrades[of "rangeEnv (Inl (Thrown ''network''))" "''password''"] s f
  show ?thesis by (simp add: rangeEnv_def)
qed

theorem checkPasswordBreach_malformed_counterexample:
  "checkPasswordBreach
     (rangeEnv (Inr \<lparr>ok = True, text_body = Inr ''1E4C9B93F3F0682250B6CF8331B7EE68FD8''\<rparr>))
     ''password''
   = \<lparr>isBreached = True, breachCount = NaN, breach_details = ''Found in NaN data breaches!''\<rparr>
   \<and> checkPasswordBreach
     (rangeEnv (Inr \<lparr>ok = True, text_body = Inr ''<html>Service unavailable</html>''\<rparr>))
     ''password''
   = \<lparr>isBreached = False, breachCount = Finite 0, breach_details = ''No breaches found''\<rparr>"
  by code_simp

lemma decimal_unit:
  assumes "inRange (CHR ''0'') (CHR ''9'') c"
  shows "isDigitOf 10 c" "\<not> isWhiteSpace c" "c \<noteq> CHR ''-''" "c \<noteq> CHR ''+''"
    "c \<noteq> CHR ''x''" "c \<noteq> CHR ''X''"
  using assms
  by (auto simp add: inRange_def isDigitOf_def digitValue_def isWhiteSpace_def)

lemma no_value_unit:
  assumes "digitValue c = None"
  shows "\<not> isDigitOf 10 c" "c \<noteq> CHR ''x''" "c \<noteq> CHR ''X''"
  using assms by (auto simp add: isDigitOf_def digitValue_def)

lemma parseInt_digits:
  assumes ne: "ds \<noteq> []" and dec: "\<forall>c \<in> set ds. inRange (CHR ''0'') (CHR ''9'') c"
    and r: "rest = [] \<or> digitValue (hd rest) = None"
  shows "parseInt (ds @ rest) = toNumber False (digitsValue 10 ds)"
proof -
  from ne obtain d ds' where ds: "ds = d # ds'" by (cases ds) auto
  from dec ds have d: "inRange (CHR ''0'') (CHR ''9'') d" by simp
  have w: "dropWhile isWhiteSpace (ds @ rest) = ds @ rest"
    unfolding ds using decimal_unit(2)[OF d] by simp
  have second: "c \<noteq> CHR ''x'' \<and> c \<noteq> CHR ''X''" if "ds' @ rest = c # t" for c t
  proof (cases ds')
    case Nil
    with that r have "digitValue c = None" by auto
    then show ?thesis using no_value_unit by blast
  next
    case (Cons a as)
    with that dec ds have "inRange (CHR ''0'') (CHR ''9'') c" by auto
    then show ?thesis using decimal_unit by blast
  qed
  have nohex: "\<not> startsWith (ds @ rest) ''0x''" "\<not> startsWith (ds @ rest) ''0X''"
    unfolding ds startsWith_def using second by (cases "ds' @ rest"; auto)+
  have run: "takeWhile (isDigitOf 10) (ds @ rest) = ds"
  proof -
    have a: "\<forall>c \<in> set ds. isDigitOf 10 c" using dec decimal_unit(1) by blast
    have b: "takeWhile (isDigitOf 10) rest = []"
      using r no_value_unit(1) by (cases rest) auto
    from a b show ?thesis by (simp add: takeWhile_append2)
  qed
  have sign: "hd (ds @ rest) \<noteq> CHR ''-''" "hd (ds @ rest) \<noteq> CHR ''+''"
    unfolding ds using decimal_unit(3,4)[OF d] by simp_all
  show ?thesis
    unfolding parseInt_def w Let_def using nohex sign run ne by simp
qed


lemma bitLength_le: "n < 2 ^ k \<Longrightarrow> bitLength n \<le> k"
proof (induction k arbitrary: n)
  case 0
  then show ?case by (simp add: bitLength.simps[of 0])
next
  case (Suc k)
  then have "n div 2 < 2 ^ k" by simp
  then have "bitLength (n div 2) \<le> k" by (rule Suc.IH)
  then show ?case by (simp add: bitLength.simps[of n])
qed

lemma roundToDouble_exact: "n < 2 ^ 53 \<Longrightarrow> roundToDouble n = n"
  using bitLength_le[of n 53] by (simp add: roundToDouble_def)

lemma toNumber_exact:
  assumes "m < 2 ^ 53"
  shows "toNumber negative m = Finite (if negative then - int m else int m)"
proof -
  from assms have "bitLength m \<le> 53" by (rule bitLength_le)
  then have "\<not> bitLength m > 1024" by simp
  then show ?thesis
    unfolding toNumber_def roundToDouble_exact[OF assms] Let_def by simp
qed

lemma toNumber_nonneg:
  "(\<exists>i. 0 \<le> i \<and> toNumber False m = Finite i) \<or> toNumber False m = Infinity"
  by (simp add: toNumber_def Let_def)

lemma parseInt_rounds: "parseInt ''9007199254740993'' = Finite 9007199254740992"
proof -
  have v: "digitsValue 10 ''9007199254740993'' = 9007199254740993"
    by (simp add: digitsValue_def digitValue_def)
  have b: "bitLength 9007199254740993 = 54"
    by (simp add: bitLength.simps)
  have r: "roundToDouble 9007199254740993 = 9007199254740992"
    unfolding roundToDouble_def b by (simp add: Let_def)
  have p: "parseInt (''9007199254740993'' @ []) = toNumber False (digitsValue 10 ''9007199254740993'')"
    by (rule parseInt_digits) (simp_all add: inRange_def)
  have b2: "bitLength 9007199254740992 = 54"
    by (simp add: bitLength.simps)
  show ?thesis using p unfolding v toNumber_def r Let_def b2 by simp
qed

lemma numberToString_examples:
  "numberToString (Finite 42) = ''42''"
  "numberToString (Finite (- 5)) = ''-5''"
  "numberToString NaN = ''NaN''"
  by code_simp+

lemma startsWith_nonempty: "startsWith line p \<Longrightarrow> p \<noteq> [] \<Longrightarrow> line \<noteq> []"
  by (auto simp add: startsWith_def)

lemma natToString_byte:
  "n < 256 \<Longrightarrow> length (padStart 2 c (natToString 16 n)) = 2"
proof -
  assume n: "n < 256"
  show ?thesis
  proof (cases "n < 16")
    case True
    then show ?thesis by (simp add: natToString.simps[of 16 n] padStart_def)
  next
    case False
    from n have "n div 16 < 16" by simp
    then have "natToString 16 (n div 16) = [digitChar (n div 16)]"
      by (simp add: natToString.simps[of 16 "n div 16"])
    with False show ?thesis by (simp add: natToString.simps[of 16 n] padStart_def)
  qed
qed

lemma sha1_length:
  assumes "digest_sha1 env password = Inr bytes" "sha1 env password = Inr h"
  shows "length h = 2 * length bytes"
proof -
  have u: "unat b < 256" for b :: "8 word"
    using unsigned_less[of b, where ?'a = nat] by simp
  have "length (concat (map (\<lambda>b. padStart 2 (CHR ''0'') (natToString 16 (unat b))) bs))
          = 2 * length bs" for bs :: "8 word list"
    by (induction bs) (simp_all add: natToString_byte u)
  with assms show ?thesis by (auto simp add: sha1_def toUpperCase_def)
qed

lemma find_Some_mem: "find P xs = Some x \<Longrightarrow> x \<in> set xs \<and> P x"
  by (auto simp add: find_Some_iff)

lemma bitLength_pow: "bitLength (2 ^ k) = Suc k"
proof (induction k)
  case 0
  show ?case by (simp add: bitLength.simps[of "Suc 0"] bitLength.simps[of 0])
next
  case (Suc k)
  have "bitLength (2 * 2 ^ k) = Suc (bitLength (2 ^ k))"
    by (subst bitLength.simps) simp
  with Suc show ?case by simp
qed

lemma toNumber_overflow: "toNumber False (2 ^ 1024) = Infinity"
proof -
  have r: "roundToDouble (2 ^ 1024) = 2 ^ 1024"
  proof -
    have e: "(2::nat) ^ 1024 = 2 ^ 52 * 2 ^ 972" by (simp add: power_add[symmetric])
    have d: "(2::nat) ^ 1024 div 2 ^ 972 = 2 ^ 52" "(2::nat) ^ 1024 mod 2 ^ 972 = 0"
      unfolding e by simp_all
    have h: "(2::nat) ^ 971 \<noteq> 0" by simp
    show ?thesis
      unfolding roundToDouble_def bitLength_pow Let_def
      using d h by (simp add: e[symmetric] del: power_eq_0_iff)
  qed
  show ?thesis unfolding toNumber_def r Let_def bitLength_pow by simp
qed

lemma numberToString_rounded:
  "numberToString (Finite 18446744073709551616) = ''18446744073709552000''"
  by (simp add: numberToString_def positiveToString_def shortestDigits_def candidate_def
        roundToDouble_def bitLength.simps natToString.simps digitChar_def Let_def char_of_eq_iff
        upt_rec[of _ "Suc _"])

text \<open>
  Claim C9, as the code has it. For a body that was read, the lookup takes the first line
  that starts with the suffix (35 code units for a 20-byte digest). If there is none, the
  result is not breached with count 0. If there is one, the result is breached and the
  count is what \<open>parseInt\<close> reads from the text between the first and the second colon
  of that line. Whenever that text is a run of decimal digits, alone or followed by a
  unit that is no letter and no digit, the count is the double nearest to the value of
  the run: the value itself when it is below \<open>2 ^ 53\<close>, and in every case a
  non-negative integer or Infinity. Nothing else is checked, so other lines give NaN or a
  negative number.
\<close>

theorem checkPasswordBreach_scan:
  fixes env :: breach_env and password h data :: string and resp :: range_response
  defines "r \<equiv> checkPasswordBreach env password"
  defines "suffix \<equiv> toUpperCase (drop 5 h)"
  defines "hashes \<equiv> split_on (CHR 0x0A) data"
  assumes a: "sha1 env password = Inr h" "fetch_range env (take 5 h) = Inr resp" "ok resp"
    "text_body resp = Inr data"
  shows "((\<forall>line \<in> set hashes. \<not> startsWith line suffix)
            \<longrightarrow> isBreached r = False \<and> breachCount r = Finite 0)
     \<and> (suffix \<noteq> [] \<and> (\<exists>line \<in> set hashes. startsWith line suffix)
            \<longrightarrow> (\<exists>line. find (\<lambda>hash. startsWith hash suffix) hashes = Some line
                   \<and> isBreached r = True
                   \<and> breachCount r = parseInt (secondField line)
                   \<and> (\<forall>ds rest. secondField line = ds @ rest \<and> ds \<noteq> []
                          \<and> (\<forall>c \<in> set ds. inRange (CHR ''0'') (CHR ''9'') c)
                          \<and> (rest = [] \<or> digitValue (hd rest) = None)
                        \<longrightarrow> breachCount r = toNumber False (digitsValue 10 ds)
                          \<and> (digitsValue 10 ds < 2 ^ 53
                               \<longrightarrow> breachCount r = Finite (int (digitsValue 10 ds)))
                          \<and> ((\<exists>i. 0 \<le> i \<and> breachCount r = Finite i)
                               \<or> breachCount r = Infinity))))
     \<and> (\<forall>bytes. digest_sha1 env password = Inr bytes \<and> length bytes = 20
            \<longrightarrow> length h = 40 \<and> length suffix = 35)"
proof -
  let ?P = "\<lambda>hash. startsWith hash suffix"
  note rd = checkPasswordBreach_read[OF a, folded suffix_def hashes_def r_def]
  have none: "isBreached r = False \<and> breachCount r = Finite 0"
    if "\<forall>line \<in> set hashes. \<not> startsWith line suffix"
  proof -
    from that have "find ?P hashes = None" by (simp add: find_None_iff)
    then show ?thesis unfolding rd by simp
  qed
  have some: "\<exists>line. find ?P hashes = Some line
                   \<and> isBreached r = True
                   \<and> breachCount r = parseInt (secondField line)
                   \<and> (\<forall>ds rest. secondField line = ds @ rest \<and> ds \<noteq> []
                          \<and> (\<forall>c \<in> set ds. inRange (CHR ''0'') (CHR ''9'') c)
                          \<and> (rest = [] \<or> digitValue (hd rest) = None)
                        \<longrightarrow> breachCount r = toNumber False (digitsValue 10 ds)
                          \<and> (digitsValue 10 ds < 2 ^ 53
                               \<longrightarrow> breachCount r = Finite (int (digitsValue 10 ds)))
                          \<and> ((\<exists>i. 0 \<le> i \<and> breachCount r = Finite i)
                               \<or> breachCount r = Infinity))"
    if s: "suffix \<noteq> []" and e: "\<exists>line \<in> set hashes. startsWith line suffix"
  proof -
    from e have "find ?P hashes \<noteq> None" by (auto simp add: find_None_iff)
    then obtain line where f: "find ?P hashes = Some line" by blast
    then have "startsWith line suffix" by (auto simp add: find_Some_iff)
    with s have ne: "line \<noteq> []" by (rule startsWith_nonempty[rotated])
    have b: "isBreached r = True" and c: "breachCount r = parseInt (secondField line)"
      unfolding rd f using ne by simp_all
    have "breachCount r = toNumber False (digitsValue 10 ds)
            \<and> (digitsValue 10 ds < 2 ^ 53 \<longrightarrow> breachCount r = Finite (int (digitsValue 10 ds)))
            \<and> ((\<exists>i. 0 \<le> i \<and> breachCount r = Finite i) \<or> breachCount r = Infinity)"
      if "secondField line = ds @ rest" "ds \<noteq> []"
        "\<forall>c \<in> set ds. inRange (CHR ''0'') (CHR ''9'') c" "rest = [] \<or> digitValue (hd rest) = None"
      for ds rest
    proof -
      have p: "breachCount r = toNumber False (digitsValue 10 ds)"
        unfolding c that(1) using that(2,3,4) by (rule parseInt_digits)
      have x: "breachCount r = Finite (int (digitsValue 10 ds))" if "digitsValue 10 ds < 2 ^ 53"
        unfolding p using toNumber_exact[OF that, of False] by simp
      have n: "(\<exists>i. 0 \<le> i \<and> breachCount r = Finite i) \<or> breachCount r = Infinity"
        unfolding p by (rule toNumber_nonneg)
      from p x n show ?thesis by blast
    qed
    with f b c show ?thesis by blast
  qed
  have len: "length h = 40 \<and> length suffix = 35"
    if "digest_sha1 env password = Inr bytes" "length bytes = 20" for bytes
    using sha1_length[OF that(1) a(1)] that(2) by (simp add: suffix_def toUpperCase_def)
  from none some len show ?thesis by blast
qed

theorem checkPasswordBreach_scan_witness:
  "sha1 answeringEnv ''password'' = Inr ''5BAA61E4C9B93F3F0682250B6CF8331B7EE68FD8''
   \<and> fetch_range answeringEnv ''5BAA6'' = Inr \<lparr>ok = True, text_body = Inr rangeBody\<rparr>
   \<and> isBreached (checkPasswordBreach answeringEnv ''password'') = True
   \<and> breachCount (checkPasswordBreach answeringEnv ''password'') = Finite 3861493"
proof -
  define h where "h = ''5BAA61E4C9B93F3F0682250B6CF8331B7EE68FD8''"
  define resp where "resp = \<lparr>ok = True, text_body = Inr rangeBody\<rparr>"
  define found where "found = ''1E4C9B93F3F0682250B6CF8331B7EE68FD8:3861493'' @ [CHR 0x0D]"
  have s: "sha1 answeringEnv ''password'' = Inr h"
    unfolding h_def by code_simp
  have f5: "fetch_range answeringEnv ''5BAA6'' = Inr resp"
    by (simp add: answeringEnv_def rangeEnv_def resp_def)
  have t5: "take 5 h = ''5BAA6''" unfolding h_def by simp
  have f: "fetch_range answeringEnv (take 5 h) = Inr resp" unfolding t5 by (rule f5)
  have o: "ok resp" "text_body resp = Inr rangeBody" by (simp_all add: resp_def)
  have sfx: "toUpperCase (drop 5 h) \<noteq> []" unfolding h_def by code_simp
  have fnd: "find (\<lambda>hash. startsWith hash (toUpperCase (drop 5 h))) (split_on (CHR 0x0A) rangeBody)
               = Some found"
    unfolding h_def found_def by code_simp
  from find_Some_mem[OF fnd]
  have ex: "\<exists>line \<in> set (split_on (CHR 0x0A) rangeBody). startsWith line (toUpperCase (drop 5 h))"
    by blast
  have fld: "secondField found = ''3861493'' @ [CHR 0x0D]" unfolding found_def by code_simp
  have dg: "\<forall>c \<in> set ''3861493''. inRange (CHR ''0'') (CHR ''9'') c" by code_simp
  have cr: "[CHR 0x0D] = [] \<or> digitValue (hd [CHR 0x0D]) = None" by code_simp
  have v: "digitsValue 10 ''3861493'' = 3861493"
    by (simp add: digitsValue_def digitValue_def)
  have small: "digitsValue 10 ''3861493'' < 2 ^ 53" unfolding v by simp
  have ne: "''3861493'' \<noteq> []" by simp
  from checkPasswordBreach_scan[OF s f o] sfx ex
  obtain line where l: "find (\<lambda>hash. startsWith hash (toUpperCase (drop 5 h))) (split_on (CHR 0x0A) rangeBody) = Some line"
    and b: "isBreached (checkPasswordBreach answeringEnv ''password'') = True"
    and c: "\<forall>ds rest. secondField line = ds @ rest \<and> ds \<noteq> []
                          \<and> (\<forall>c \<in> set ds. inRange (CHR ''0'') (CHR ''9'') c)
                          \<and> (rest = [] \<or> digitValue (hd rest) = None)
                        \<longrightarrow> (digitsValue 10 ds < 2 ^ 53
                               \<longrightarrow> breachCount (checkPasswordBreach answeringEnv ''password'')
                                     = Finite (int (digitsValue 10 ds)))"
    by blast
  from l fnd have "line = found" by simp
  with c fld dg cr ne small
  have "breachCount (checkPasswordBreach answeringEnv ''password'')
          = Finite (int (digitsValue 10 ''3861493''))"
    by blast
  then have n: "breachCount (checkPasswordBreach answeringEnv ''password'') = Finite 3861493"
    unfolding v by simp
  from s f5 b n show ?thesis unfolding h_def resp_def by blast
qed

theorem checkPasswordBreach_count_counterexample:
  "checkPasswordBreach
     (rangeEnv (Inr \<lparr>ok = True, text_body = Inr ''1E4C9B93F3F0682250B6CF8331B7EE68FD8:-5''\<rparr>))
     ''password''
   = \<lparr>isBreached = True, breachCount = Finite (- 5),
      breach_details = ''Found in -5 data breaches!''\<rparr>
   \<and> breachCount (checkPasswordBreach
        (rangeEnv (Inr \<lparr>ok = True,
           text_body = Inr ''1E4C9B93F3F0682250B6CF8331B7EE68FD8:9007199254740993''\<rparr>))
        ''password'')
     = Finite 9007199254740992"
proof -
  define resp where "resp = \<lparr>ok = True,
           text_body = Inr ''1E4C9B93F3F0682250B6CF8331B7EE68FD8:9007199254740993''\<rparr>"
  define h where "h = ''5BAA61E4C9B93F3F0682250B6CF8331B7EE68FD8''"
  have minus: "checkPasswordBreach
     (rangeEnv (Inr \<lparr>ok = True, text_body = Inr ''1E4C9B93F3F0682250B6CF8331B7EE68FD8:-5''\<rparr>))
     ''password''
   = \<lparr>isBreached = True, breachCount = Finite (- 5),
      breach_details = ''Found in -5 data breaches!''\<rparr>"
    by code_simp
  have s: "sha1 (rangeEnv (Inr resp)) ''password'' = Inr h"
    unfolding h_def resp_def by code_simp
  have f: "fetch_range (rangeEnv (Inr resp)) (take 5 h) = Inr resp"
    by (simp add: rangeEnv_def)
  have o: "ok resp"
    "text_body resp = Inr ''1E4C9B93F3F0682250B6CF8331B7EE68FD8:9007199254740993''"
    by (simp_all add: resp_def)
  have fnd: "find (\<lambda>hash. startsWith hash (toUpperCase (drop 5 h)))
               (split_on (CHR 0x0A) ''1E4C9B93F3F0682250B6CF8331B7EE68FD8:9007199254740993'')
             = Some ''1E4C9B93F3F0682250B6CF8331B7EE68FD8:9007199254740993''"
    unfolding h_def by code_simp
  have fld: "secondField ''1E4C9B93F3F0682250B6CF8331B7EE68FD8:9007199254740993''
               = ''9007199254740993''"
    by code_simp
  have big: "breachCount (checkPasswordBreach (rangeEnv (Inr resp)) ''password'')
               = Finite 9007199254740992"
    unfolding checkPasswordBreach_read[OF s f o] fnd
    by (simp add: fld parseInt_rounds)
  from minus big show ?thesis unfolding resp_def by blast
qed

end
